theory Spec2Isabelle
  imports Complex_Main "HOL-Library.Sublist"
begin

section \<open>Mixture model engine of \<^verbatim>\<open>GMM.py\<close>\<close>

text \<open>
  A shallow embedding of \<^verbatim>\<open>src/GMM.py\<close>: the family registry, the probability warp, the
  two Gaussian mixture models with their constructors, \<^verbatim>\<open>forward\<close>,
  \<^verbatim>\<open>constrain_parameters\<close> and \<^verbatim>\<open>get_covariance_matrix\<close>, and the factory
  \<^verbatim>\<open>get_model\<close>.

  Tensor entries are modelled as real numbers: rounding is not modelled, and a parameter
  tensor holds finite values. Where the source can produce an IEEE special value (the
  probability warp, the mean of an empty batch) the value is a \<open>npfloat\<close>, which adds
  the two infinities and NaN to the reals. Exceptions are values of type \<open>error\<close>, and a
  function that can raise returns \<open>error + 'a\<close>.
\<close>

subsection \<open>Errors\<close>

datatype error =
    ValueError string
  | NotImplementedError string
  | TorchValueError
  | TypeError
  | RuntimeError
  | ZeroDivisionError

subsection \<open>The family registry\<close>

datatype MixtureFamily = FULL | DIAGONAL | ISOTROPIC | SHARED_ISOTROPIC | CONSTANT

text \<open>The \<^verbatim>\<open>value\<close> of each member of the enumeration.\<close>

fun family_value :: "MixtureFamily \<Rightarrow> string" where
  "family_value FULL = ''full''"
| "family_value DIAGONAL = ''diagonal''"
| "family_value ISOTROPIC = ''isotropic''"
| "family_value SHARED_ISOTROPIC = ''shared_isotropic''"
| "family_value CONSTANT = ''constant''"









subsection \<open>Floating-point values with the IEEE special values\<close>

text \<open>
  A float is a real number, an infinity or NaN. The zero is the positive zero (the only zero
  the warp can divide by is \<^verbatim>\<open>log(1.0)\<close>, which is \<^verbatim>\<open>+0.0\<close>).
\<close>

datatype npfloat = Finite real | PosInf | NegInf | NaN

text \<open>\<^verbatim>\<open>numpy.log\<close>: minus infinity at zero and NaN below it (with a warning, no exception).\<close>

fun np_log :: "npfloat \<Rightarrow> npfloat" where
  "np_log (Finite x) = (if 0 < x then Finite (ln x) else if x = 0 then NegInf else NaN)"
| "np_log PosInf = PosInf"
| "np_log NegInf = NaN"
| "np_log NaN = NaN"

text \<open>Division of two \<^verbatim>\<open>numpy.float64\<close>: dividing by zero gives an infinity or NaN, and no exception.\<close>

fun np_div :: "npfloat \<Rightarrow> npfloat \<Rightarrow> npfloat" where
  "np_div (Finite x) (Finite y) =
     (if y \<noteq> 0 then Finite (x / y)
      else if 0 < x then PosInf else if x < 0 then NegInf else NaN)"
| "np_div (Finite x) PosInf = Finite 0"
| "np_div (Finite x) NegInf = Finite 0"
| "np_div PosInf (Finite y) = (if 0 \<le> y then PosInf else NegInf)"
| "np_div NegInf (Finite y) = (if 0 \<le> y then NegInf else PosInf)"
| "np_div PosInf PosInf = NaN"
| "np_div PosInf NegInf = NaN"
| "np_div NegInf PosInf = NaN"
| "np_div NegInf NegInf = NaN"
| "np_div NaN y = NaN"
| "np_div x NaN = NaN"

definition is_int :: "real \<Rightarrow> bool" where
  "is_int a = (a = of_int \<lfloor>a\<rfloor>)"

definition is_odd_int :: "real \<Rightarrow> bool" where
  "is_odd_int a = (is_int a \<and> odd \<lfloor>a\<rfloor>)"

text \<open>
  The power of a tensor entry by a scalar exponent (\<^verbatim>\<open>probs ** alpha\<close>), with the special
  cases of the IEEE \<^verbatim>\<open>pow\<close>: any base to the power zero is one, one to any power is one,
  a negative base with a fractional exponent is NaN.
\<close>

fun torch_pow :: "npfloat \<Rightarrow> npfloat \<Rightarrow> npfloat" where
  "torch_pow b (Finite a) =
     (if a = 0 then Finite 1
      else case b of
        Finite x \<Rightarrow>
          if 0 < x then Finite (x powr a)
          else if x = 0 then (if 0 < a then Finite 0 else PosInf)
          else if is_int a then Finite (x powi \<lfloor>a\<rfloor>) else NaN
      | PosInf \<Rightarrow> if 0 < a then PosInf else Finite 0
      | NegInf \<Rightarrow> if 0 < a then (if is_odd_int a then NegInf else PosInf) else Finite 0
      | NaN \<Rightarrow> NaN)"
| "torch_pow b PosInf =
     (case b of
        Finite x \<Rightarrow> if \<bar>x\<bar> < 1 then Finite 0 else if \<bar>x\<bar> = 1 then Finite 1 else PosInf
      | PosInf \<Rightarrow> PosInf
      | NegInf \<Rightarrow> PosInf
      | NaN \<Rightarrow> NaN)"
| "torch_pow b NegInf =
     (case b of
        Finite x \<Rightarrow> if \<bar>x\<bar> < 1 then PosInf else if \<bar>x\<bar> = 1 then Finite 1 else Finite 0
      | PosInf \<Rightarrow> Finite 0
      | NegInf \<Rightarrow> Finite 0
      | NaN \<Rightarrow> NaN)"
| "torch_pow b NaN = (if b = Finite 1 then Finite 1 else NaN)"

subsection \<open>The probability warp\<close>

text \<open>
  The exponent \<^verbatim>\<open>numpy.log(target_value) / numpy.log(1 / len(probs))\<close> for a vector of
  length \<open>n\<close>. \<^verbatim>\<open>1 / len(probs)\<close> divides two Python integers and raises for a divisor of
  zero; the division of the two logarithms is numpy's and does not raise.
\<close>

definition warp_alpha :: "nat \<Rightarrow> npfloat \<Rightarrow> error + npfloat" where
  "warp_alpha n target_value =
     (if n = 0 then Inl ZeroDivisionError
      else Inr (np_div (np_log target_value) (np_log (Finite (1 / real n)))))"

definition warp_probs :: "npfloat list \<Rightarrow> npfloat \<Rightarrow> error + npfloat list" where
  "warp_probs probs target_value =
     (case warp_alpha (length probs) target_value of
        Inl e \<Rightarrow> Inl e
      | Inr alpha \<Rightarrow> Inr (map (\<lambda>p. torch_pow p alpha) probs))"


subsection \<open>Tensors\<close>

text \<open>
  A vector is the list of its entries and a matrix the list of its rows. A batch of
  matrices (a tensor of three dimensions) is a list of matrices.
\<close>

type_synonym vec = "real list"
type_synonym mat = "real list list"

definition dot :: "vec \<Rightarrow> vec \<Rightarrow> real" where
  "dot u v = sum_list (map2 (*) u v)"

text \<open>\<^verbatim>\<open>A @ B.mT\<close>: the entry at \<open>(i, j)\<close> is the product of row \<open>i\<close> of \<open>A\<close> and row \<open>j\<close> of \<open>B\<close>.\<close>

definition matmul_mT :: "mat \<Rightarrow> mat \<Rightarrow> mat" where
  "matmul_mT A B = map (\<lambda>r. map (\<lambda>r'. dot r r') B) A"

definition mat_add :: "mat \<Rightarrow> mat \<Rightarrow> mat" where
  "mat_add A B = map2 (map2 (+)) A B"

text \<open>\<^verbatim>\<open>torch.diag(d)\<close> of a vector, and \<^verbatim>\<open>torch.diag_embed\<close> of a batch of vectors.\<close>

definition diag :: "vec \<Rightarrow> mat" where
  "diag d = map (\<lambda>i. map (\<lambda>j. if i = j then d ! i else 0) [0..<length d]) [0..<length d]"

definition diag_embed :: "mat \<Rightarrow> mat list" where
  "diag_embed ds = map diag ds"

text \<open>\<^verbatim>\<open>torch.tril\<close>: the entries above the diagonal become zero.\<close>

definition tril :: "mat \<Rightarrow> mat" where
  "tril A = map (\<lambda>(i, row). map (\<lambda>(j, x). if j \<le> i then x else 0) (enumerate 0 row)) (enumerate 0 A)"

text \<open>\<^verbatim>\<open>A.diagonal()\<close>: the entries \<open>(i, i)\<close> that exist.\<close>

definition diagonal :: "mat \<Rightarrow> vec" where
  "diagonal A = map (\<lambda>(i, row). row ! i) (filter (\<lambda>(i, row). i < length row) (enumerate 0 A))"

text \<open>
  An in-place update of \<^verbatim>\<open>A.diagonal()\<close>, a view of \<open>A\<close>: the function is applied to every
  entry \<open>(i, i)\<close> that exists, counting the rows from \<open>i\<close>.
\<close>

fun map_diagonal :: "(real \<Rightarrow> real) \<Rightarrow> nat \<Rightarrow> mat \<Rightarrow> mat" where
  "map_diagonal f i [] = []"
| "map_diagonal f i (row # rows) =
     (if i < length row then row[i := f (row ! i)] else row) # map_diagonal f (Suc i) rows"

subsection \<open>The random generator\<close>

text \<open>
  The generator is the sequence of numbers it will draw, each in the interval \<open>[0, 1)\<close>.
  \<^verbatim>\<open>torch.rand(rows, cols)\<close> takes the next \<open>rows * cols\<close> of them and leaves the rest.
\<close>

type_synonym rng = "nat \<Rightarrow> real"

definition rand :: "rng \<Rightarrow> nat \<Rightarrow> nat \<Rightarrow> mat \<times> rng" where
  "rand g rows cols =
     (map (\<lambda>i. map (\<lambda>j. g (i * cols + j)) [0..<cols]) [0..<rows], \<lambda>k. g (rows * cols + k))"

text \<open>
  \<^verbatim>\<open>t.uniform_(lo, hi)\<close> overwrites every entry of \<open>t\<close> with a fresh draw scaled into
  \<open>[lo, hi)\<close>, and raises when \<open>lo > hi\<close>.
\<close>

definition uniform_inplace :: "rng \<Rightarrow> mat \<Rightarrow> real \<Rightarrow> real \<Rightarrow> error + mat \<times> rng" where
  "uniform_inplace g t lo hi =
     (if hi < lo then Inl RuntimeError
      else Inr (map (\<lambda>i. map (\<lambda>j. lo + g (i * length (t ! i) + j) * (hi - lo)) [0..<length (t ! i)])
                  [0..<length t],
                \<lambda>k. g (sum_list (map length t) + k)))"

subsection \<open>The linear embedding\<close>

text \<open>A Python number: the factory's \<^verbatim>\<open>radius\<close> reaches a parameter that must be an integer.\<close>

datatype pynum = PyInt int | PyFloat real

record Linear =
  in_features :: nat
  out_features :: nat
  weight :: mat

text \<open>
  \<^verbatim>\<open>torch.nn.Linear(in_features, out_features, bias=False)\<close>: the weight has
  \<open>out_features\<close> rows of \<open>in_features\<close> entries, drawn uniformly in
  \<open>[-1/sqrt(in_features), 1/sqrt(in_features))\<close>. A size that is not an integer raises a
  \<^verbatim>\<open>TypeError\<close> and a negative size a \<^verbatim>\<open>RuntimeError\<close>.
\<close>

definition Linear_init :: "pynum \<Rightarrow> nat \<Rightarrow> rng \<Rightarrow> error + Linear \<times> rng" where
  "Linear_init num_in num_out g =
     (case num_in of
        PyFloat r \<Rightarrow> Inl TypeError
      | PyInt k \<Rightarrow>
          if k < 0 then Inl RuntimeError
          else let bound = 1 / sqrt (real (nat k));
                   (u, g') = rand g num_out (nat k)
               in Inr (\<lparr>in_features = nat k, out_features = num_out,
                        weight = map (map (\<lambda>x. - bound + x * (bound - (- bound)))) u\<rparr>, g'))"

text \<open>
  Applying the embedding to a batch (the list of its feature vectors): every vector is
  multiplied by the transposed weight; a vector of another length than \<open>in_features\<close>
  raises.
\<close>

definition Linear_forward :: "Linear \<Rightarrow> vec list \<Rightarrow> error + vec list" where
  "Linear_forward l xs =
     (if list_all (\<lambda>x. length x = in_features l) xs
      then Inr (map (\<lambda>x. map (\<lambda>w. dot x w) (weight l)) xs)
      else Inl RuntimeError)"

subsection \<open>The models\<close>

record MixtureModel =
  num_components :: nat
  num_dims :: nat
  init_radius :: real
  init_mus :: "mat option"
  logits :: vec

record GmmFull = MixtureModel +
  embed :: Linear
  mus :: mat
  scale_tril :: "mat list"

record GmmDiagonal = MixtureModel +
  embed :: Linear
  mus :: mat
  sigmas_diag :: mat

text \<open>
  \<^verbatim>\<open>MixtureModel.__init__\<close>. The numbers of components and of dimensions are sizes of
  tensors and are natural numbers here.
\<close>

definition MixtureModel_init :: "nat \<Rightarrow> nat \<Rightarrow> real \<Rightarrow> mat option \<Rightarrow> MixtureModel" where
  "MixtureModel_init n_components n_dims radius initial_mus =
     \<lparr>num_components = n_components, num_dims = n_dims, init_radius = radius,
      init_mus = initial_mus, logits = replicate n_components 0\<rparr>"

text \<open>\<^verbatim>\<open>torch.tensor\<close> of a list of lists raises when the lists differ in length.\<close>

definition torch_tensor :: "mat \<Rightarrow> error + mat" where
  "torch_tensor ms =
     (if list_all (\<lambda>r. length r = length (hd ms)) ms then Inr ms else Inl TorchValueError)"

text \<open>
  The initial means of both constructors: the values of the attribute \<^verbatim>\<open>self.init_mus\<close>
  when it is set, and otherwise \<^verbatim>\<open>torch.rand(num_components, num_dims)\<close> overwritten
  by \<^verbatim>\<open>uniform_(-init_radius, init_radius)\<close>.
\<close>

definition initial_means ::
  "mat option \<Rightarrow> nat \<Rightarrow> nat \<Rightarrow> real \<Rightarrow> rng \<Rightarrow> error + mat \<times> rng" where
  "initial_means self_init_mus n_components n_dims radius g =
     (case self_init_mus of
        Some ms \<Rightarrow> (case torch_tensor ms of Inl e \<Rightarrow> Inl e | Inr t \<Rightarrow> Inr (t, g))
      | None \<Rightarrow>
          (let (t, g') = rand g n_components n_dims in uniform_inplace g' t (- radius) radius))"

text \<open>
  \<^verbatim>\<open>GmmFull.__init__(num_components, num_dims, num_feat, init_radius, init_mus)\<close>. The
  constructor of the base class is called with three arguments, so its fourth parameter
  \<^verbatim>\<open>init_mus\<close> takes its default \<^verbatim>\<open>None\<close>, and the parameter \<^verbatim>\<open>init_mus\<close> of this
  constructor is not read. \<^verbatim>\<open>torch.stack\<close> raises for an empty list of components.
\<close>

definition GmmFull_init ::
  "nat \<Rightarrow> nat \<Rightarrow> pynum \<Rightarrow> real \<Rightarrow> mat option \<Rightarrow> rng \<Rightarrow> error + GmmFull" where
  "GmmFull_init n_components n_dims num_feat radius initial_mus g =
     (let base = MixtureModel_init n_components n_dims radius None
      in case initial_means (init_mus base) n_components n_dims radius g of
           Inl e \<Rightarrow> Inl e
         | Inr (means, g1) \<Rightarrow>
             (case Linear_init num_feat n_dims g1 of
                Inl e \<Rightarrow> Inl e
              | Inr (lin, g2) \<Rightarrow>
                  (let lower_triangular = tril (fst (rand g2 n_dims n_dims));
                       diagonal_matrix = diag (replicate n_dims 1);
                       positive_definite_matrix =
                         mat_add (matmul_mT lower_triangular lower_triangular) diagonal_matrix;
                       sigmas = replicate (num_components base) positive_definite_matrix
                   in if sigmas = [] then Inl RuntimeError
                      else Inr \<lparr>num_components = num_components base, num_dims = num_dims base,
                             init_radius = init_radius base, init_mus = init_mus base,
                             logits = logits base,
                             GmmFull.embed = lin, GmmFull.mus = means, scale_tril = sigmas\<rparr>)))"

text \<open>\<^verbatim>\<open>GmmDiagonal.__init__\<close>, with the same call of the base class's constructor.\<close>

definition GmmDiagonal_init ::
  "nat \<Rightarrow> nat \<Rightarrow> pynum \<Rightarrow> real \<Rightarrow> mat option \<Rightarrow> rng \<Rightarrow> error + GmmDiagonal" where
  "GmmDiagonal_init n_components n_dims num_feat radius initial_mus g =
     (let base = MixtureModel_init n_components n_dims radius None
      in case initial_means (init_mus base) n_components n_dims radius g of
           Inl e \<Rightarrow> Inl e
         | Inr (means, g1) \<Rightarrow>
             (case Linear_init num_feat n_dims g1 of
                Inl e \<Rightarrow> Inl e
              | Inr (lin, g2) \<Rightarrow>
                  Inr \<lparr>num_components = num_components base, num_dims = num_dims base,
                       init_radius = init_radius base, init_mus = init_mus base,
                       logits = logits base,
                       GmmDiagonal.embed = lin, GmmDiagonal.mus = means,
                       sigmas_diag = fst (rand g2 n_components n_dims)\<rparr>))"

subsection \<open>The factory\<close>

datatype model = Full GmmFull | Diagonal GmmDiagonal

text \<open>
  \<^verbatim>\<open>get_model\<close> calls each constructor with three positional arguments: the third,
  \<^verbatim>\<open>radius\<close>, is the constructor's \<^verbatim>\<open>num_feat\<close>, and \<^verbatim>\<open>init_radius\<close> and
  \<^verbatim>\<open>init_mus\<close> take their defaults \<^verbatim>\<open>1.0\<close> and \<^verbatim>\<open>None\<close>.
\<close>

definition get_model :: "MixtureFamily \<Rightarrow> nat \<Rightarrow> nat \<Rightarrow> pynum \<Rightarrow> rng \<Rightarrow> error + model" where
  "get_model mixture_family n_components n_dims radius g =
     (if mixture_family = FULL then
        (case GmmFull_init n_components n_dims radius 1 None g of
           Inl e \<Rightarrow> Inl e | Inr m \<Rightarrow> Inr (Full m))
      else if mixture_family = DIAGONAL then
        (case GmmDiagonal_init n_components n_dims radius 1 None g of
           Inl e \<Rightarrow> Inl e | Inr m \<Rightarrow> Inr (Diagonal m))
      else Inl (NotImplementedError
             (''Mixture family '' @ family_value mixture_family @ '' not implemented yet'')))"

subsection \<open>Constraining the parameters\<close>

text \<open>
  For every component, the absolute value of the diagonal of its matrix in place, then the
  diagonal clamped from below by \<open>epsilon\<close>; no other attribute is assigned.
\<close>

definition GmmFull_constrain_parameters :: "GmmFull \<Rightarrow> real \<Rightarrow> GmmFull" where
  "GmmFull_constrain_parameters m epsilon =
     m\<lparr>scale_tril :=
         map (\<lambda>tril. map_diagonal (\<lambda>x. max x epsilon) 0 (map_diagonal abs 0 tril))
           (scale_tril m)\<rparr>"

definition GmmDiagonal_constrain_parameters :: "GmmDiagonal \<Rightarrow> real \<Rightarrow> GmmDiagonal" where
  "GmmDiagonal_constrain_parameters m epsilon =
     m\<lparr>sigmas_diag :=
         map (\<lambda>diag. map (\<lambda>x. max x epsilon) (map abs diag)) (sigmas_diag m)\<rparr>"

subsection \<open>The covariance matrices\<close>

definition GmmFull_get_covariance_matrix :: "GmmFull \<Rightarrow> mat list" where
  "GmmFull_get_covariance_matrix m = map (\<lambda>L. matmul_mT L L) (scale_tril m)"

definition GmmDiagonal_get_covariance_matrix :: "GmmDiagonal \<Rightarrow> mat list" where
  "GmmDiagonal_get_covariance_matrix m = diag_embed (sigmas_diag m)"


subsection \<open>The distributions of \<^verbatim>\<open>torch.distributions\<close>\<close>

text \<open>
  The distributions validate their parameters when they are built and raise a
  \<^verbatim>\<open>ValueError\<close> (here \<open>TorchValueError\<close>) for a parameter outside its constraint.
\<close>

text \<open>\<^verbatim>\<open>Categorical(logits=...)\<close> keeps the normalised logits: the logarithms of the mixing weights.\<close>

definition log_softmax :: "vec \<Rightarrow> vec" where
  "log_softmax ls = map (\<lambda>l. l - ln (sum_list (map exp ls))) ls"

text \<open>
  Forward substitution: the solution \<open>z\<close> of \<open>L z = b\<close> for the rows given of a lower
  triangular \<open>L\<close>, after the entries \<open>zs\<close> already found.
\<close>

fun solve_triangular :: "mat \<Rightarrow> vec \<Rightarrow> vec \<Rightarrow> vec" where
  "solve_triangular [] b zs = zs"
| "solve_triangular (l # ls) b zs =
     solve_triangular ls b (zs @ [(b ! length zs - dot zs l) / (l ! length zs)])"

text \<open>
  The Cholesky factor, row by row from the lower triangle of the matrix; it does not exist
  (and \<^verbatim>\<open>torch.linalg.cholesky\<close> fails) when a pivot is not positive.
\<close>

fun cholesky_rows :: "mat \<Rightarrow> mat \<Rightarrow> mat option" where
  "cholesky_rows [] Ls = Some Ls"
| "cholesky_rows (a # as) Ls =
     (let es = solve_triangular Ls a [];
          d = a ! length Ls - dot es es
      in if 0 < d
         then cholesky_rows as (Ls @ [es @ [sqrt d] @ replicate (length a - Suc (length Ls)) 0])
         else None)"

definition cholesky :: "mat \<Rightarrow> mat option" where
  "cholesky A = cholesky_rows A []"

text \<open>
  The constraint \<^verbatim>\<open>positive_definite\<close>: the matrix is close to its transpose
  (\<^verbatim>\<open>torch.isclose\<close> with \<^verbatim>\<open>atol=1e-6\<close> and the default \<^verbatim>\<open>rtol=1e-5\<close>) and has a
  Cholesky factor.
\<close>

definition symmetric_check :: "mat \<Rightarrow> bool" where
  "symmetric_check A =
     list_all (\<lambda>i. list_all (\<lambda>j. \<bar>A ! i ! j - A ! j ! i\<bar> \<le> 1 / 10 ^ 6 + 1 / 10 ^ 5 * \<bar>A ! j ! i\<bar>)
                      [0..<length A])
       [0..<length A]"

definition positive_definite_check :: "mat \<Rightarrow> bool" where
  "positive_definite_check A = (symmetric_check A \<and> cholesky A \<noteq> None)"

record MultivariateNormal =
  loc :: mat
  unbroadcasted_scale_tril :: "mat list"

text \<open>
  \<^verbatim>\<open>MultivariateNormal(loc, covariance_matrix)\<close>: the signature of the constructor is
  \<^verbatim>\<open>(loc, covariance_matrix=None, precision_matrix=None, scale_tril=None)\<close>, so a second
  positional argument is the covariance matrix of every component. It must be positive
  definite, and its Cholesky factor is what the density is computed from.
\<close>

definition MultivariateNormal_init :: "mat \<Rightarrow> mat list \<Rightarrow> error + MultivariateNormal" where
  "MultivariateNormal_init locs covariance_matrix =
     (if list_all positive_definite_check covariance_matrix
      then Inr \<lparr>loc = locs, unbroadcasted_scale_tril = map (the \<circ> cholesky) covariance_matrix\<rparr>
      else Inl TorchValueError)"

text \<open>
  The log density of one component at \<open>x\<close>, from its mean \<open>mu\<close> and its factor \<open>L\<close>: with
  \<open>M\<close> the squared Mahalanobis distance \<open>|L\<^sup>-\<^sup>1 (x - mu)|\<^sup>2\<close>, it is
  \<open>-(n log(2 pi) + M) / 2\<close> minus the sum of the logarithms of the diagonal of \<open>L\<close>.
\<close>

definition mvn_log_prob :: "vec \<Rightarrow> mat \<Rightarrow> vec \<Rightarrow> real" where
  "mvn_log_prob mu L x =
     (let diff = map2 (-) x mu;
          z = solve_triangular L diff [];
          M = dot z z;
          half_log_det = sum_list (map ln (diagonal L))
      in - (1 / 2) * (real (length mu) * ln (2 * pi) + M) - half_log_det)"

definition MultivariateNormal_log_prob :: "MultivariateNormal \<Rightarrow> vec \<Rightarrow> vec" where
  "MultivariateNormal_log_prob d x =
     map2 (\<lambda>mu L. mvn_log_prob mu L x) (loc d) (unbroadcasted_scale_tril d)"

record Normal =
  loc :: mat
  scale :: mat

text \<open>\<^verbatim>\<open>Normal(loc, scale)\<close>: the second argument is the standard deviation and must be positive.\<close>

definition Normal_init :: "mat \<Rightarrow> mat \<Rightarrow> error + Normal" where
  "Normal_init locs scales =
     (if list_all (list_all (\<lambda>s. 0 < s)) scales
      then Inr \<lparr>Normal.loc = locs, scale = scales\<rparr>
      else Inl TorchValueError)"

definition normal_log_prob :: "real \<Rightarrow> real \<Rightarrow> real \<Rightarrow> real" where
  "normal_log_prob mu sigma v =
     - ((v - mu) ^ 2) / (2 * sigma ^ 2) - ln sigma - ln (sqrt (2 * pi))"

text \<open>\<^verbatim>\<open>Independent(Normal(...), 1)\<close>: the log density of a component is the sum over its dimensions.\<close>

definition Independent_Normal_log_prob :: "Normal \<Rightarrow> vec \<Rightarrow> vec" where
  "Independent_Normal_log_prob d x =
     map2 (\<lambda>mu sigma. sum_list (map (\<lambda>(m, s, v). normal_log_prob m s v) (zip mu (zip sigma x))))
       (Normal.loc d) (scale d)"

text \<open>
  \<^verbatim>\<open>MixtureSameFamily.log_prob\<close>: the logarithm of the sum, over the components, of the
  exponential of the component's log density plus the logarithm of its mixing weight.
\<close>

definition mixture_log_prob :: "vec \<Rightarrow> vec \<Rightarrow> real" where
  "mixture_log_prob mixing_logits component_log_probs =
     ln (sum_list (map exp (map2 (+) component_log_probs (log_softmax mixing_logits))))"

text \<open>
  The loss: minus the mean of the log densities of the batch. The mean of an empty batch is
  NaN; with no component the log density is minus infinity and the loss is infinite.
\<close>

definition nll_loss :: "nat \<Rightarrow> real list \<Rightarrow> npfloat" where
  "nll_loss n_components log_probs =
     (if log_probs = [] then NaN
      else if n_components = 0 then PosInf
      else Finite (- 1 * (sum_list log_probs / real (length log_probs))))"

subsection \<open>Forward evaluation\<close>

text \<open>
  The batch is the list of the feature vectors at all its positions. \<^verbatim>\<open>forward\<close> returns
  the loss and a sample drawn from the mixture; the sample has no part in the loss and is
  left out of the model.
\<close>

definition GmmFull_forward :: "GmmFull \<Rightarrow> vec list \<Rightarrow> error + npfloat" where
  "GmmFull_forward m x =
     (case Linear_forward (GmmFull.embed m) x of
        Inl e \<Rightarrow> Inl e
      | Inr xs \<Rightarrow>
          (case MultivariateNormal_init (GmmFull.mus m) (scale_tril m) of
             Inl e \<Rightarrow> Inl e
           | Inr components \<Rightarrow>
               Inr (nll_loss (length (logits m))
                      (map (\<lambda>v. mixture_log_prob (logits m) (MultivariateNormal_log_prob components v))
                         xs))))"

definition GmmDiagonal_forward :: "GmmDiagonal \<Rightarrow> vec list \<Rightarrow> error + npfloat" where
  "GmmDiagonal_forward m x =
     (case Linear_forward (GmmDiagonal.embed m) x of
        Inl e \<Rightarrow> Inl e
      | Inr xs \<Rightarrow>
          (case Normal_init (GmmDiagonal.mus m) (sigmas_diag m) of
             Inl e \<Rightarrow> Inl e
           | Inr components \<Rightarrow>
               Inr (nll_loss (length (logits m))
                      (map (\<lambda>v. mixture_log_prob (logits m) (Independent_Normal_log_prob components v))
                         xs))))"

subsection \<open>The closed form of the spec\<close>

text \<open>
  The negative log density of a single Gaussian with mean \<open>mu\<close> and the diagonal
  covariance matrix of the variances \<open>vs\<close>, at the point \<open>x\<close>, as the spec's degenerate
  single-component property has it (\<open>log(2 pi)\<close> for two dimensions, mean zero, unit
  variances, at the origin).
\<close>

definition gaussian_nll_diag :: "vec \<Rightarrow> vec \<Rightarrow> vec \<Rightarrow> real" where
  "gaussian_nll_diag mu vs x =
     sum_list (map (\<lambda>(m, var, v). ln (2 * pi * var) / 2 + (v - m) ^ 2 / (2 * var))
                 (zip mu (zip vs x)))"


subsection \<open>Symmetry, semidefiniteness and the determinant\<close>

text \<open>
  The notions that the validity of a covariance matrix is stated with: a matrix is
  symmetric when it equals its transpose and positive semidefinite when its quadratic form
  is nowhere negative; the determinant is computed by the expansion along the first
  column.
\<close>

text \<open>The matrix without its row \<open>i\<close>.\<close>

definition drop_row :: "nat \<Rightarrow> mat \<Rightarrow> mat" where
  "drop_row i A = take i A @ drop (Suc i) A"

text \<open>
  The determinant of the \<open>n\<close> first rows and columns, by the expansion along the first column.
\<close>

primrec det_rec :: "nat \<Rightarrow> mat \<Rightarrow> real" where
  "det_rec 0 A = 1"
| "det_rec (Suc n) A =
     sum_list (map (\<lambda>i. (- 1) ^ i * hd (A ! i) * det_rec n (map tl (drop_row i A))) [0..<Suc n])"

definition det :: "mat \<Rightarrow> real" where
  "det A = det_rec (length A) A"

definition square :: "nat \<Rightarrow> mat \<Rightarrow> bool" where
  "square n A = (length A = n \<and> list_all (\<lambda>r. length r = n) A)"

definition lower_triangular :: "mat \<Rightarrow> bool" where
  "lower_triangular A =
     list_all (\<lambda>i. list_all (\<lambda>j. A ! i ! j = 0) [Suc i..<length A]) [0..<length A]"

definition symmetric :: "mat \<Rightarrow> bool" where
  "symmetric A =
     list_all (\<lambda>i. list_all (\<lambda>j. A ! i ! j = A ! j ! i) [0..<length A]) [0..<length A]"

definition quadratic_form :: "mat \<Rightarrow> vec \<Rightarrow> real" where
  "quadratic_form A v = dot v (map (\<lambda>r. dot r v) A)"


subsection \<open>Example states\<close>

text \<open>
  Model states with one component, as an optimiser can leave them: a full model in one
  dimension, full models in two dimensions (one with a lower triangular matrix, one with a
  singular matrix) and a diagonal model in one dimension.
\<close>

definition example_full :: GmmFull where
  "example_full =
     \<lparr>num_components = 1, num_dims = 1, init_radius = 1, init_mus = None, logits = [0],
      GmmFull.embed = \<lparr>in_features = 1, out_features = 1, weight = [[1]]\<rparr>,
      GmmFull.mus = [[0]], scale_tril = [[[2]]]\<rparr>"

definition example_full_2d :: GmmFull where
  "example_full_2d =
     \<lparr>num_components = 1, num_dims = 2, init_radius = 1, init_mus = None, logits = [0],
      GmmFull.embed = \<lparr>in_features = 2, out_features = 2, weight = [[1, 0], [0, 1]]\<rparr>,
      GmmFull.mus = [[0, 0]], scale_tril = [[[- 3, 5], [7, 0]]]\<rparr>"

definition example_diagonal :: GmmDiagonal where
  "example_diagonal =
     \<lparr>num_components = 1, num_dims = 1, init_radius = 1, init_mus = None, logits = [0],
      GmmDiagonal.embed = \<lparr>in_features = 1, out_features = 1, weight = [[1]]\<rparr>,
      GmmDiagonal.mus = [[0]], sigmas_diag = [[2]]\<rparr>"


definition example_full_lower :: GmmFull where
  "example_full_lower =
     \<lparr>num_components = 1, num_dims = 2, init_radius = 1, init_mus = None, logits = [0],
      GmmFull.embed = \<lparr>in_features = 2, out_features = 2, weight = [[1, 0], [0, 1]]\<rparr>,
      GmmFull.mus = [[0, 0]], scale_tril = [[[- 3, 0], [7, 0]]]\<rparr>"

definition example_full_singular :: GmmFull where
  "example_full_singular =
     \<lparr>num_components = 1, num_dims = 2, init_radius = 1, init_mus = None, logits = [0],
      GmmFull.embed = \<lparr>in_features = 2, out_features = 2, weight = [[1, 0], [0, 1]]\<rparr>,
      GmmFull.mus = [[0, 0]], scale_tril = [[[1, 1], [1, 1]]]\<rparr>"


section \<open>Properties\<close>

subsection \<open>The registry lookup\<close>






subsection \<open>The probability warp\<close>

lemma ln_inverse_nat_neg:
  assumes "2 \<le> n"
  shows "ln (1 / real n) < 0"
proof -
  have "0 < 1 / real n" and "1 / real n < 1"
    using assms by simp_all
  then show ?thesis
    by (rule ln_less_zero)
qed

lemma warp_alpha_uniform:
  assumes "2 \<le> n" and "0 < t"
  shows "warp_alpha n (Finite t) = Inr (Finite (ln t / ln (1 / real n)))"
  using ln_inverse_nat_neg [OF assms(1)] assms
  by (simp add: warp_alpha_def)

lemma pow_uniform_entry:
  assumes "2 \<le> n" and "0 < t" and "t < 1"
  shows "torch_pow (Finite (1 / real n)) (Finite (ln t / ln (1 / real n))) = Finite t"
proof -
  have neg: "ln (1 / real n) < 0"
    by (rule ln_inverse_nat_neg [OF assms(1)])
  have pos: "0 < 1 / real n"
    using assms(1) by simp
  have lt: "ln t < 0"
    using assms(2,3) by (rule ln_less_zero)
  have nz: "ln t / ln (1 / real n) \<noteq> 0"
    using neg lt by simp
  have "(1 / real n) powr (ln t / ln (1 / real n)) = exp (ln t / ln (1 / real n) * ln (1 / real n))"
    using pos by (simp add: powr_def)
  also have "\<dots> = exp (ln t)"
    using neg by simp
  also have "\<dots> = t"
    using assms(2) by simp
  finally show ?thesis
    using nz pos by simp
qed

text \<open>
  Claim C8. For every \<open>n \<ge> 2\<close> and every target value \<open>t\<close> strictly between 0 and 1, the
  warp of the uniform vector of length \<open>n\<close> (every entry \<open>1/n\<close>) is the vector of length
  \<open>n\<close> whose every entry is \<open>t\<close>.
\<close>

theorem warp_uniform_is_target:
  assumes "2 \<le> n" and "0 < t" and "t < 1"
  shows "warp_probs (replicate n (Finite (1 / real n))) (Finite t) = Inr (replicate n (Finite t))"
  using warp_alpha_uniform [OF assms(1,2)] pow_uniform_entry [OF assms]
  by (simp add: warp_probs_def map_replicate_const)

theorem warp_uniform_is_target_witness:
  "(2::nat) \<le> 4 \<and> (0::real) < 3/4 \<and> (3/4::real) < 1
   \<and> warp_probs (replicate 4 (Finite (1 / real 4))) (Finite (3/4)) = Inr (replicate 4 (Finite (3/4)))"
  using warp_uniform_is_target [of 4 "3/4"] by simp

text \<open>
  Claim C10. For a vector of length 1 the divisor of the exponent, \<open>log(1/1)\<close>, is zero, and
  the exponent is an infinity or NaN whatever the target value is. For a finite target
  value the exponent is a real number exactly when the vector has at least two entries and
  the target value is positive (a vector of length 0 raises).
\<close>

theorem warp_exponent_needs_two_entries:
  "np_log (Finite (1 / real 1)) = Finite 0
   \<and> warp_alpha 1 target_value \<in> {Inr PosInf, Inr NegInf, Inr NaN}
   \<and> warp_probs [p] target_value \<in> (\<lambda>a. Inr [torch_pow p a]) ` {PosInf, NegInf, NaN}
   \<and> ((\<exists>a. warp_alpha n (Finite t) = Inr (Finite a)) = (2 \<le> n \<and> 0 < t))"
proof -
  have a: "np_log (Finite (1 / real 1)) = Finite 0"
    by simp
  have b: "warp_alpha 1 target_value \<in> {Inr PosInf, Inr NegInf, Inr NaN}"
    by (cases target_value) (auto simp: warp_alpha_def)
  have c: "warp_probs [p] target_value \<in> (\<lambda>a. Inr [torch_pow p a]) ` {PosInf, NegInf, NaN}"
    using b by (auto simp: warp_probs_def)
  have d: "(\<exists>a. warp_alpha n (Finite t) = Inr (Finite a)) = (2 \<le> n \<and> 0 < t)"
  proof (cases "2 \<le> n")
    case True
    then have neg: "ln (1 / real n) < 0"
      by (rule ln_inverse_nat_neg)
    have pos: "0 < 1 / real n"
      using True by simp
    show ?thesis
      using True neg pos by (auto simp: warp_alpha_def)
  next
    case False
    then have "n = 0 \<or> n = 1"
      by arith
    then show ?thesis
      by (auto simp: warp_alpha_def)
  qed
  show ?thesis
    using a b c d by blast
qed

subsection \<open>Constraining the parameters\<close>

lemma map_diagonal_compose:
  "map_diagonal f i (map_diagonal g i A) = map_diagonal (\<lambda>x. f (g x)) i A"
  by (induction A arbitrary: i) auto

lemma length_map_diagonal: "length (map_diagonal f i A) = length A"
  by (induction A arbitrary: i) auto

lemma map_diagonal_nth:
  "r < length A \<Longrightarrow>
     map_diagonal f i A ! r =
       (if i + r < length (A ! r) then (A ! r)[i + r := f (A ! r ! (i + r))] else A ! r)"
proof (induction A arbitrary: i r)
  case Nil
  then show ?case by simp
next
  case (Cons row rows)
  show ?case
  proof (cases r)
    case 0
    then show ?thesis by simp
  next
    case (Suc r')
    with Cons.prems have "r' < length rows" by simp
    from Cons.IH [OF this, of "Suc i"] Suc show ?thesis by simp
  qed
qed

lemma clamp_abs_idem: "max \<bar>max \<bar>x\<bar> e\<bar> e = max \<bar>x\<bar> (e::real)"
  by (simp add: max_def)

lemma length_row_map_diagonal:
  "r < length A \<Longrightarrow> length (map_diagonal f i A ! r) = length (A ! r)"
  by (simp add: map_diagonal_nth)

lemma map_diagonal_off_diagonal:
  "r < length A \<Longrightarrow> j \<noteq> i + r \<Longrightarrow> map_diagonal f i A ! r ! j = A ! r ! j"
  by (simp add: map_diagonal_nth)

text \<open>
  Claim C7. For both models, constraining the parameters twice in succession with the same
  \<open>epsilon\<close> gives the state that constraining them once gives. It holds for every
  \<open>epsilon\<close>, so for every positive one.
\<close>

theorem constrain_parameters_idempotent:
  "GmmFull_constrain_parameters (GmmFull_constrain_parameters m epsilon) epsilon
     = GmmFull_constrain_parameters m epsilon
   \<and> GmmDiagonal_constrain_parameters (GmmDiagonal_constrain_parameters d epsilon) epsilon
     = GmmDiagonal_constrain_parameters d epsilon"
  by (simp add: GmmFull_constrain_parameters_def GmmDiagonal_constrain_parameters_def
      map_diagonal_compose clamp_abs_idem o_def)

text \<open>
  Claim C9. For every state and every \<open>epsilon\<close>, constraining the parameters leaves the
  numbers of components and dimensions, the initial radius and means, the mixing logits,
  the embedding and the means as they were, and keeps the shape of the scale parameter; of
  a full model's matrices every entry off the diagonal is unchanged.
\<close>

theorem constrain_parameters_frame:
  "num_components (GmmFull_constrain_parameters m epsilon) = num_components m
   \<and> num_dims (GmmFull_constrain_parameters m epsilon) = num_dims m
   \<and> init_radius (GmmFull_constrain_parameters m epsilon) = init_radius m
   \<and> init_mus (GmmFull_constrain_parameters m epsilon) = init_mus m
   \<and> logits (GmmFull_constrain_parameters m epsilon) = logits m
   \<and> GmmFull.embed (GmmFull_constrain_parameters m epsilon) = GmmFull.embed m
   \<and> GmmFull.mus (GmmFull_constrain_parameters m epsilon) = GmmFull.mus m
   \<and> length (scale_tril (GmmFull_constrain_parameters m epsilon)) = length (scale_tril m)
   \<and> (\<forall>k < length (scale_tril m).
         length (scale_tril (GmmFull_constrain_parameters m epsilon) ! k)
           = length (scale_tril m ! k)
         \<and> (\<forall>i < length (scale_tril m ! k).
               length (scale_tril (GmmFull_constrain_parameters m epsilon) ! k ! i)
                 = length (scale_tril m ! k ! i)
               \<and> (\<forall>j. j \<noteq> i \<longrightarrow>
                     scale_tril (GmmFull_constrain_parameters m epsilon) ! k ! i ! j
                       = scale_tril m ! k ! i ! j)))
   \<and> num_components (GmmDiagonal_constrain_parameters d epsilon) = num_components d
   \<and> num_dims (GmmDiagonal_constrain_parameters d epsilon) = num_dims d
   \<and> init_radius (GmmDiagonal_constrain_parameters d epsilon) = init_radius d
   \<and> init_mus (GmmDiagonal_constrain_parameters d epsilon) = init_mus d
   \<and> logits (GmmDiagonal_constrain_parameters d epsilon) = logits d
   \<and> GmmDiagonal.embed (GmmDiagonal_constrain_parameters d epsilon) = GmmDiagonal.embed d
   \<and> GmmDiagonal.mus (GmmDiagonal_constrain_parameters d epsilon) = GmmDiagonal.mus d
   \<and> map length (sigmas_diag (GmmDiagonal_constrain_parameters d epsilon))
       = map length (sigmas_diag d)"
  by (simp add: GmmFull_constrain_parameters_def GmmDiagonal_constrain_parameters_def
      length_map_diagonal length_row_map_diagonal map_diagonal_off_diagonal o_def)

theorem constrain_parameters_frame_witness:
  "(0::nat) < length (scale_tril example_full_2d)
   \<and> (1::nat) < length (scale_tril example_full_2d ! 0)
   \<and> scale_tril (GmmFull_constrain_parameters example_full_2d (1 / 2)) ! 0 ! 1 ! 0 = 7
   \<and> scale_tril (GmmFull_constrain_parameters example_full_2d (1 / 2)) ! 0 ! 0 ! 1 = 5
   \<and> scale_tril (GmmFull_constrain_parameters example_full_2d (1 / 2)) = [[[3, 5], [7, 1 / 2]]]
   \<and> GmmFull.mus (GmmFull_constrain_parameters example_full_2d (1 / 2)) = [[0, 0]]"
proof -
  have k: "(0::nat) < length (scale_tril example_full_2d)"
    by (simp add: example_full_2d_def)
  have i1: "(1::nat) < length (scale_tril example_full_2d ! 0)"
    and i0: "(0::nat) < length (scale_tril example_full_2d ! 0)"
    by (simp_all add: example_full_2d_def)
  note fr = constrain_parameters_frame [of example_full_2d "1 / 2" example_diagonal]
  from fr k i1 have a:
    "scale_tril (GmmFull_constrain_parameters example_full_2d (1 / 2)) ! 0 ! 1 ! 0
       = scale_tril example_full_2d ! 0 ! 1 ! 0"
    by (metis zero_neq_one)
  from fr k i0 have b:
    "scale_tril (GmmFull_constrain_parameters example_full_2d (1 / 2)) ! 0 ! 0 ! 1
       = scale_tril example_full_2d ! 0 ! 0 ! 1"
    by (metis zero_neq_one)
  from fr have c:
    "GmmFull.mus (GmmFull_constrain_parameters example_full_2d (1 / 2))
       = GmmFull.mus example_full_2d"
    by blast
  have d: "scale_tril (GmmFull_constrain_parameters example_full_2d (1 / 2)) = [[[3, 5], [7, 1 / 2]]]"
    by (simp add: GmmFull_constrain_parameters_def example_full_2d_def)
  show ?thesis
    using k i1 a b c d by (simp add: example_full_2d_def)
qed


subsection \<open>The covariance that forward evaluation uses\<close>

text \<open>
  With one component, the loss of the diagonal model on one point is the closed form for the
  variances \<open>sigmas_diag\<^sup>2\<close>; the loss of the full model in one dimension is the closed
  form for the variance \<open>scale_tril\<close> itself, not its square.
\<close>

lemma ln_sqrt_two_pi: "ln (sqrt (2 * pi)) = ln (2 * pi) / 2"
  by (simp add: ln_sqrt)

lemma neg_normal_log_prob:
  assumes "0 < s"
  shows "- normal_log_prob m s v = ln (2 * pi * s ^ 2) / 2 + (v - m) ^ 2 / (2 * s ^ 2)"
proof -
  have "ln (2 * pi * s ^ 2) = ln (2 * pi) + 2 * ln s"
    using assms by (simp add: ln_mult ln_realpow)
  then show ?thesis
    by (simp add: normal_log_prob_def ln_sqrt_two_pi)
qed

lemma mixture_single: "mixture_log_prob [l] [lp] = lp"
  by (simp add: mixture_log_prob_def log_softmax_def)

lemma neg_sum_normal:
  assumes "list_all (\<lambda>s. 0 < s) sigma"
  shows "- sum_list (map (\<lambda>(m, s, v). normal_log_prob m s v) (zip mu (zip sigma x)))
      = gaussian_nll_diag mu (map (\<lambda>s. s ^ 2) sigma) x"
  using assms
proof (induction sigma arbitrary: mu x)
  case Nil
  then show ?case by (simp add: gaussian_nll_diag_def)
next
  case (Cons s sigma)
  show ?case
  proof (cases mu)
    case Nil
    then show ?thesis by (simp add: gaussian_nll_diag_def)
  next
    case mu: (Cons m mu')
    show ?thesis
    proof (cases x)
      case Nil
      then show ?thesis by (simp add: gaussian_nll_diag_def)
    next
      case x: (Cons v x')
      from Cons.prems have s: "0 < s" and rest: "list_all (\<lambda>s. 0 < s) sigma"
        by simp_all
      from Cons.IH [OF rest, of mu' x'] neg_normal_log_prob [OF s, of m v]
      show ?thesis
        unfolding mu x by (simp add: gaussian_nll_diag_def)
    qed
  qed
qed

lemma GmmDiagonal_single_component:
  assumes "logits m = [l]" and "GmmDiagonal.mus m = [mu]" and "sigmas_diag m = [sigma]"
    and "list_all (\<lambda>s. 0 < s) sigma"
    and "Linear_forward (GmmDiagonal.embed m) [x] = Inr [v]"
  shows "GmmDiagonal_forward m [x] = Inr (Finite (gaussian_nll_diag mu (map (\<lambda>s. s ^ 2) sigma) v))"
  using assms neg_sum_normal [OF assms(4), of mu v]
  by (simp add: GmmDiagonal_forward_def Normal_init_def Independent_Normal_log_prob_def
      mixture_single nll_loss_def)

lemma GmmFull_one_dimension:
  assumes "logits m = [l]" and "GmmFull.mus m = [[mu]]" and "scale_tril m = [[[s]]]"
    and "0 < s"
    and "Linear_forward (GmmFull.embed m) [x] = Inr [[v]]"
  shows "GmmFull_forward m [x] = Inr (Finite (gaussian_nll_diag [mu] [s] [v]))"
proof -
  have ch: "cholesky [[s]] = Some [[sqrt s]]"
    using assms(4) by (simp add: cholesky_def dot_def)
  have pd: "positive_definite_check [[s]]"
    using ch by (simp add: positive_definite_check_def symmetric_check_def)
  have sq: "((v - mu) / sqrt s) * ((v - mu) / sqrt s) = (v - mu) ^ 2 / s"
    using assms(4) by (simp add: power2_eq_square)
  have lp: "mvn_log_prob [mu] [[sqrt s]] [v] = - (ln (2 * pi * s) / 2 + (v - mu) ^ 2 / (2 * s))"
    using assms(4) sq
    by (simp add: mvn_log_prob_def dot_def diagonal_def ln_sqrt ln_mult field_simps)
  show ?thesis
    using assms pd ch lp
    by (simp add: GmmFull_forward_def MultivariateNormal_init_def MultivariateNormal_log_prob_def
        mixture_single nll_loss_def gaussian_nll_diag_def)
qed

lemma example_diagonal_embed: "Linear_forward (GmmDiagonal.embed example_diagonal) [[0]] = Inr [[0]]"
  by (simp add: example_diagonal_def Linear_forward_def dot_def)

lemma example_full_embed: "Linear_forward (GmmFull.embed example_full) [[0]] = Inr [[0]]"
  by (simp add: example_full_def Linear_forward_def dot_def)

text \<open>
  Claim C1. The covariance of the mixture that \<^verbatim>\<open>forward\<close> evaluates is
  \<open>scale_tril scale_tril\<^sup>T\<close> for the full model and \<open>diag(sigmas_diag\<^sup>2)\<close> for the
  diagonal model. For the full model it is not: in the state \<open>example_full\<close>, whose factor
  is \<open>[[2]]\<close>, the loss at the mean is the closed form for the variance 2, while the
  covariance \<open>scale_tril scale_tril\<^sup>T\<close> that \<^verbatim>\<open>get_covariance_matrix\<close> returns is 4.
\<close>

theorem GmmFull_forward_takes_factor_as_covariance:
  "GmmFull_forward example_full [[0]] = Inr (Finite (gaussian_nll_diag [0] [2] [0]))
   \<and> GmmFull_get_covariance_matrix example_full = [[[4]]]
   \<and> GmmFull_forward example_full [[0]] \<noteq> Inr (Finite (gaussian_nll_diag [0] [4] [0]))"
proof -
  have a: "GmmFull_forward example_full [[0]] = Inr (Finite (gaussian_nll_diag [0] [2] [0]))"
    using GmmFull_one_dimension [of example_full 0 0 2 "[0]" 0] example_full_embed
    by (simp add: example_full_def)
  have b: "GmmFull_get_covariance_matrix example_full = [[[4]]]"
    by (simp add: GmmFull_get_covariance_matrix_def matmul_mT_def dot_def example_full_def)
  have "ln (2 * pi * 2) < ln (2 * pi * 4)"
    by (subst ln_less_cancel_iff) (simp_all add: pi_gt_zero)
  then have c: "gaussian_nll_diag [0] [2] [0] \<noteq> gaussian_nll_diag [0] [4] [0]"
    by (simp add: gaussian_nll_diag_def)
  show ?thesis
    using a b c by simp
qed

text \<open>
  Claim C2. \<^verbatim>\<open>get_covariance_matrix\<close> of the diagonal model returns \<open>diag(sigmas_diag\<^sup>2)\<close>,
  the covariance of the distribution. It does not: in the state \<open>example_diagonal\<close>, whose
  scale is 2, it returns \<open>[[2]]\<close>, while the squares are \<open>[[4]]\<close> and the loss of
  \<^verbatim>\<open>forward\<close> is the closed form for the variance 4.
\<close>

theorem GmmDiagonal_covariance_not_squared:
  "GmmDiagonal_get_covariance_matrix example_diagonal = [[[2]]]
   \<and> map (\<lambda>d. diag (map (\<lambda>s. s ^ 2) d)) (sigmas_diag example_diagonal) = [[[4]]]
   \<and> GmmDiagonal_forward example_diagonal [[0]] = Inr (Finite (gaussian_nll_diag [0] [4] [0]))"
proof -
  have a: "GmmDiagonal_get_covariance_matrix example_diagonal = [[[2]]]"
    by (simp add: GmmDiagonal_get_covariance_matrix_def diag_embed_def diag_def example_diagonal_def)
  have b: "map (\<lambda>d. diag (map (\<lambda>s. s ^ 2) d)) (sigmas_diag example_diagonal) = [[[4]]]"
    by (simp add: diag_def example_diagonal_def)
  have c: "GmmDiagonal_forward example_diagonal [[0]] = Inr (Finite (gaussian_nll_diag [0] [4] [0]))"
    using GmmDiagonal_single_component [of example_diagonal 0 "[0]" "[2]" "[0]" "[0]"]
      example_diagonal_embed
    by (simp add: example_diagonal_def)
  show ?thesis
    using a b c by simp
qed


subsection \<open>The constructors and the factory\<close>

text \<open>
  Both constructors ignore the initial means they are given, and the means they draw lie
  within the initial radius when the generator draws from \<open>[0, 1)\<close>.
\<close>

lemma GmmFull_init_ignores_init_mus:
  "GmmFull_init n_components n_dims num_feat radius (Some ms) g
     = GmmFull_init n_components n_dims num_feat radius None g"
  by (simp add: GmmFull_init_def)

lemma GmmDiagonal_init_ignores_init_mus:
  "GmmDiagonal_init n_components n_dims num_feat radius (Some ms) g
     = GmmDiagonal_init n_components n_dims num_feat radius None g"
  by (simp add: GmmDiagonal_init_def)

lemma uniform_inplace_bounds:
  assumes "\<And>k. 0 \<le> g k \<and> g k < 1" and "uniform_inplace g t (- r) r = Inr (t', g')"
  shows "list_all (list_all (\<lambda>x. - r \<le> x \<and> x \<le> r)) t'"
proof -
  from assms(2) have r: "0 \<le> r" and t': "t' = map (\<lambda>i. map (\<lambda>j. - r + g (i * length (t ! i) + j) * (r - (- r))) [0..<length (t ! i)]) [0..<length t]"
    by (auto simp: uniform_inplace_def split: if_splits)
  have "- r \<le> - r + g k * (r - (- r)) \<and> - r + g k * (r - (- r)) \<le> r" for k
  proof -
    have "0 \<le> g k * (2 * r)" using assms(1) [of k] r by simp
    moreover have "g k * (2 * r) \<le> 1 * (2 * r)"
      using assms(1) [of k] r by (intro mult_right_mono) simp_all
    ultimately show ?thesis by simp
  qed
  then show ?thesis
    unfolding t' by (simp add: list_all_iff)
qed

lemma initial_means_None_bounds:
  assumes "\<And>k. 0 \<le> g k \<and> g k < 1"
    and "initial_means None n_components n_dims r g = Inr (t', g')"
  shows "list_all (list_all (\<lambda>x. - r \<le> x \<and> x \<le> r)) t'"
proof -
  obtain t g1 where d: "rand g n_components n_dims = (t, g1)"
    by (cases "rand g n_components n_dims")
  then have g1: "g1 = (\<lambda>k. g (n_components * n_dims + k))"
    by (auto simp: rand_def)
  have "\<And>k. 0 \<le> g1 k \<and> g1 k < 1"
    unfolding g1 using assms(1) by simp
  moreover from assms(2) d have "uniform_inplace g1 t (- r) r = Inr (t', g')"
    by (simp add: initial_means_def)
  ultimately show ?thesis
    by (rule uniform_inplace_bounds)
qed

lemma GmmFull_init_means_in_radius:
  assumes "\<And>k. 0 \<le> g k \<and> g k < 1"
    and "GmmFull_init n_components n_dims num_feat r initial_mus g = Inr m"
  shows "list_all (list_all (\<lambda>x. - r \<le> x \<and> x \<le> r)) (GmmFull.mus m)"
  using assms(2) initial_means_None_bounds [OF assms(1)]
  by (auto simp: GmmFull_init_def MixtureModel_init_def Let_def split: sum.splits prod.splits if_splits)

lemma GmmDiagonal_init_means_in_radius:
  assumes "\<And>k. 0 \<le> g k \<and> g k < 1"
    and "GmmDiagonal_init n_components n_dims num_feat r initial_mus g = Inr m"
  shows "list_all (list_all (\<lambda>x. - r \<le> x \<and> x \<le> r)) (GmmDiagonal.mus m)"
  using assms(2) initial_means_None_bounds [OF assms(1)]
  by (auto simp: GmmDiagonal_init_def MixtureModel_init_def Let_def split: sum.splits prod.splits if_splits)

lemma upt_1: "[0..<1] = [0]"
  by (simp add: upt_rec)

text \<open>
  Claim C5. A constructor given initial means builds a model with exactly these means, and
  otherwise every entry of the means lies in \<open>[-init_radius, init_radius]\<close>. The first
  part fails: given the means \<open>[[5]]\<close>, the radius 1 and a generator that draws zeros, both
  constructors build a model whose means are \<open>[[-1]]\<close> and whose attribute
  \<^verbatim>\<open>init_mus\<close> is \<^verbatim>\<open>None\<close>.
\<close>

theorem supplied_means_are_ignored:
  "(\<exists>m. GmmFull_init 1 1 (PyInt 1) 1 (Some [[5]]) (\<lambda>k. 0) = Inr m
        \<and> GmmFull.mus m = [[- 1]] \<and> init_mus m = None)
   \<and> (\<exists>m. GmmDiagonal_init 1 1 (PyInt 1) 1 (Some [[5]]) (\<lambda>k. 0) = Inr m
        \<and> GmmDiagonal.mus m = [[- 1]] \<and> init_mus m = None)"
  by (simp add: GmmFull_init_def GmmDiagonal_init_def MixtureModel_init_def initial_means_def
      rand_def uniform_inplace_def Linear_init_def Let_def upt_1)


text \<open>
  A model that the factory returns has the initial radius 1, and the factory's
  \<^verbatim>\<open>radius\<close> is an integer, the number of input features of the embedding.
\<close>

lemma get_model_Full_init_radius:
  assumes "get_model family n_components n_dims radius g = Inr (Full m)"
  shows "init_radius m = 1 \<and> radius = PyInt (int (in_features (GmmFull.embed m)))"
  using assms
  by (auto simp: get_model_def GmmFull_init_def MixtureModel_init_def Linear_init_def Let_def
      split: sum.splits prod.splits if_splits pynum.splits)

lemma get_model_Diagonal_init_radius:
  assumes "get_model family n_components n_dims radius g = Inr (Diagonal m)"
  shows "init_radius m = 1 \<and> radius = PyInt (int (in_features (GmmDiagonal.embed m)))"
  using assms
  by (auto simp: get_model_def GmmDiagonal_init_def MixtureModel_init_def Linear_init_def Let_def
      split: sum.splits prod.splits if_splits pynum.splits)

text \<open>
  Claim C4. The factory builds a full or a diagonal model with the caller's numbers of
  components and dimensions and the caller's radius as the model's initial radius, and
  raises only for the three other families, naming the family. The radius fails: for the
  radius 2 (an integer) the model has the initial radius 1 and an embedding of 2 input
  features, and for the radius 1/2 the factory raises a \<^verbatim>\<open>TypeError\<close>. The three other
  families raise the error that names them.
\<close>

theorem get_model_radius_becomes_num_feat:
  "(\<exists>m. get_model FULL 3 2 (PyInt 2) g = Inr (Full m)
        \<and> init_radius m = 1 \<and> in_features (GmmFull.embed m) = 2
        \<and> num_components m = 3 \<and> num_dims m = 2)
   \<and> (\<exists>m. get_model DIAGONAL 3 2 (PyInt 2) g = Inr (Diagonal m)
        \<and> init_radius m = 1 \<and> in_features (GmmDiagonal.embed m) = 2
        \<and> num_components m = 3 \<and> num_dims m = 2)
   \<and> get_model FULL 3 2 (PyFloat (1 / 2)) g = Inl TypeError
   \<and> get_model DIAGONAL 3 2 (PyFloat (1 / 2)) g = Inl TypeError
   \<and> get_model ISOTROPIC 3 2 radius g
       = Inl (NotImplementedError ''Mixture family isotropic not implemented yet'')
   \<and> get_model SHARED_ISOTROPIC 3 2 radius g
       = Inl (NotImplementedError ''Mixture family shared_isotropic not implemented yet'')
   \<and> get_model CONSTANT 3 2 radius g
       = Inl (NotImplementedError ''Mixture family constant not implemented yet'')"
  by (simp add: get_model_def GmmFull_init_def GmmDiagonal_init_def MixtureModel_init_def
      initial_means_def rand_def uniform_inplace_def Linear_init_def Let_def)

subsection \<open>The determinant\<close>

text \<open>
  The determinant is linear in every row and vanishes when two adjacent rows are equal;
  hence adding a multiple of the first row to another row does not change it, and the
  determinant of \<open>L L\<^sup>T\<close> for a lower triangular \<open>L\<close> is the square of the product
  of the diagonal of \<open>L\<close>.
\<close>

lemma det_rec_Suc_sum:
  "det_rec (Suc n) A = (\<Sum>i<Suc n. (- 1) ^ i * hd (A ! i) * det_rec n (map tl (drop_row i A)))"
  by (simp only: det_rec.simps interv_sum_list_conv_sum_set_nat set_upt atLeast0LessThan)

lemma length_drop_row: "i < length A \<Longrightarrow> length (drop_row i A) = length A - 1"
  by (simp add: drop_row_def)

lemma drop_row_nth:
  "drop_row k A ! i = (if i < k then A ! i else A ! Suc i)" if "k < length A" "i < length A - 1"
  using that by (auto simp: drop_row_def nth_append min_def)

lemma drop_row_update_same: "drop_row i (A[i := x]) = drop_row i A"
  by (simp add: drop_row_def)

lemma drop_row_update_less:
  "i < k \<Longrightarrow> drop_row k (A[i := x]) = (drop_row k A)[i := x]"
  by (auto simp: drop_row_def list_update_append drop_update_cancel take_update_swap list_update_beyond)

lemma drop_row_update_greater:
  "k < i \<Longrightarrow> k < length A \<Longrightarrow> drop_row k (A[i := x]) = (drop_row k A)[i - 1 := x]"
  by (cases i) (simp_all add: drop_row_def list_update_append take_update_cancel drop_update_swap min_def)

lemma tl_map2: "tl (map2 f u v) = map2 f (tl u) (tl v)"
  by (cases u; cases v) simp_all

lemma hd_map2: "u \<noteq> [] \<Longrightarrow> v \<noteq> [] \<Longrightarrow> hd (map2 f u v) = f (hd u) (hd v)"
  by (cases u; cases v) simp_all

lemma minor_update:
  assumes "k \<noteq> i" and "k < length A"
  shows "map tl (drop_row k (A[i := x]))
      = (map tl (drop_row k A))[(if i < k then i else i - 1) := tl x]"
proof (cases "i < k")
  case True
  then show ?thesis
    by (simp add: drop_row_update_less map_update)
next
  case False
  with assms have "k < i" by simp
  with assms False show ?thesis
    by (simp add: drop_row_update_greater map_update)
qed

lemma det_rec_row_linear:
  assumes "i < n" and "length A = n" and "length u = n" and "length v = n"
  shows "det_rec n (A[i := map2 (\<lambda>x y. a * x + b * y) u v])
      = a * det_rec n (A[i := u]) + b * det_rec n (A[i := v])"
  using assms
proof (induction n arbitrary: A i u v)
  case 0
  then show ?case by simp
next
  case (Suc n)
  let ?w = "map2 (\<lambda>x y. a * x + b * y) u v"
  let ?T = "\<lambda>x k. (- 1) ^ k * hd (A[i := x] ! k) * det_rec n (map tl (drop_row k (A[i := x])))"
  have ne: "u \<noteq> []" "v \<noteq> []"
    using Suc.prems by auto
  have tm: "?T ?w k = a * ?T u k + b * ?T v k" if k: "k < Suc n" for k
  proof (cases "k = i")
    case True
    have "hd ?w = a * hd u + b * hd v"
      using ne by (rule hd_map2)
    with True Suc.prems show ?thesis
      by (simp add: drop_row_update_same algebra_simps)
  next
    case False
    let ?i' = "if i < k then i else i - 1"
    let ?A' = "map tl (drop_row k A)"
    have kA: "k < length A"
      using k Suc.prems by simp
    have i': "?i' < n"
      using False k Suc.prems(1) by auto
    have lenA': "length ?A' = n"
      using kA Suc.prems by (simp add: length_drop_row)
    have minor: "map tl (drop_row k (A[i := x])) = ?A'[?i' := tl x]" for x
      using False kA by (rule minor_update)
    have "det_rec n (?A'[?i' := map2 (\<lambda>x y. a * x + b * y) (tl u) (tl v)])
        = a * det_rec n (?A'[?i' := tl u]) + b * det_rec n (?A'[?i' := tl v])"
      using i' lenA' Suc.prems by (intro Suc.IH) simp_all
    then have "det_rec n (map tl (drop_row k (A[i := ?w])))
        = a * det_rec n (map tl (drop_row k (A[i := u])))
          + b * det_rec n (map tl (drop_row k (A[i := v])))"
      by (simp only: minor tl_map2)
    moreover have "A[i := x] ! k = A ! k" for x
      using False by simp
    ultimately show ?thesis
      by (simp add: algebra_simps)
  qed
  have "det_rec (Suc n) (A[i := ?w]) = (\<Sum>k<Suc n. ?T ?w k)"
    by (rule det_rec_Suc_sum)
  also have "\<dots> = (\<Sum>k<Suc n. a * ?T u k + b * ?T v k)"
    by (rule sum.cong) (simp_all only: tm lessThan_iff)
  also have "\<dots> = a * (\<Sum>k<Suc n. ?T u k) + b * (\<Sum>k<Suc n. ?T v k)"
    by (simp only: sum.distrib sum_distrib_left)
  also have "\<dots> = a * det_rec (Suc n) (A[i := u]) + b * det_rec (Suc n) (A[i := v])"
    by (simp only: det_rec_Suc_sum)
  finally show ?case .
qed

lemma drop_row_adjacent_equal:
  assumes "Suc j < length A" and "A ! j = A ! Suc j"
  shows "drop_row j A = drop_row (Suc j) A"
proof -
  have "drop (Suc j) A = A ! Suc j # drop (Suc (Suc j)) A"
    using assms(1) by (simp add: Cons_nth_drop_Suc)
  moreover have "take (Suc j) A = take j A @ [A ! j]"
    using assms(1) by (simp add: take_Suc_conv_app_nth)
  ultimately show ?thesis
    using assms(2) by (simp add: drop_row_def)
qed

lemma det_rec_adjacent_equal:
  assumes "Suc j < n" and "length A = n" and "A ! j = A ! Suc j"
  shows "det_rec n A = 0"
  using assms
proof (induction n arbitrary: A j)
  case 0
  then show ?case by simp
next
  case (Suc n)
  let ?T = "\<lambda>k. (- 1) ^ k * hd (A ! k) * det_rec n (map tl (drop_row k A))"
  have rest: "?T k = 0" if k: "k < Suc n" "k \<noteq> j" "k \<noteq> Suc j" for k
  proof -
    let ?j' = "if k < j then j - 1 else j"
    let ?M = "map tl (drop_row k A)"
    have kA: "k < length A"
      using k Suc.prems by simp
    have len: "length ?M = n"
      using kA Suc.prems by (simp add: length_drop_row)
    have j': "Suc ?j' < n"
      using k Suc.prems(1) by auto
    have "drop_row k A ! ?j' = A ! j" and "drop_row k A ! Suc ?j' = A ! Suc j"
      using k kA j' Suc.prems(2) by (auto simp: drop_row_nth)
    then have "?M ! ?j' = ?M ! Suc ?j'"
      using j' len Suc.prems(3) by (simp add: nth_map length_drop_row kA)
    with j' len have "det_rec n ?M = 0"
      by (rule Suc.IH)
    then show ?thesis by simp
  qed
  have pair: "?T j + ?T (Suc j) = 0"
    using drop_row_adjacent_equal [of j A] Suc.prems by simp
  have jn: "j \<in> {..<Suc n}" and sjn: "Suc j \<in> {..<Suc n} - {j}"
    using Suc.prems(1) by auto
  have "det_rec (Suc n) A = (\<Sum>k<Suc n. ?T k)"
    by (rule det_rec_Suc_sum)
  also have "\<dots> = ?T j + (\<Sum>k\<in>{..<Suc n} - {j}. ?T k)"
    using jn by (simp only: sum.remove [OF finite_lessThan])
  also have "(\<Sum>k\<in>{..<Suc n} - {j}. ?T k) = ?T (Suc j) + (\<Sum>k\<in>{..<Suc n} - {j} - {Suc j}. ?T k)"
    using sjn by (intro sum.remove) simp_all
  also have "(\<Sum>k\<in>{..<Suc n} - {j} - {Suc j}. ?T k) = 0"
    by (rule sum.neutral) (use rest in auto)
  finally show ?case
    using pair by simp
qed

lemma square_update: "square n A \<Longrightarrow> length x = n \<Longrightarrow> square n (A[i := x])"
  unfolding square_def list_all_iff
  using set_update_subset_insert [of A i x] by auto

lemma square_nth: "square n A \<Longrightarrow> i < n \<Longrightarrow> length (A ! i) = n"
  unfolding square_def list_all_iff by auto

lemma square_length: "square n A \<Longrightarrow> length A = n"
  by (simp add: square_def)

lemma det_rec_swap_adjacent:
  assumes "Suc j < n" and "square n A"
  shows "det_rec n (A[j := A ! Suc j, Suc j := A ! j]) = - det_rec n A"
proof -
  let ?u = "A ! j" and ?v = "A ! Suc j"
  let ?w = "map2 (\<lambda>x y. 1 * x + 1 * y) ?u ?v"
  let ?B = "\<lambda>x y. A[j := x, Suc j := y]"
  have len: "length A = n"
    using assms(2) by (rule square_length)
  have lu: "length ?u = n" and lv: "length ?v = n"
    using assms by (simp_all add: square_nth)
  have j: "j < n"
    using assms(1) by simp
  have sw: "?B x y = A[Suc j := y, j := x]" for x y
    by (simp add: list_update_swap)
  have adj: "det_rec n (?B x x) = 0" for x
    using assms(1) len by (intro det_rec_adjacent_equal [of j]) simp_all
  have first: "det_rec n (?B ?w y) = det_rec n (?B ?u y) + det_rec n (?B ?v y)" for y
    unfolding sw using det_rec_row_linear [of j n "A[Suc j := y]" ?u ?v 1 1] j len lu lv
    by simp
  have second: "det_rec n (?B x ?w) = det_rec n (?B x ?u) + det_rec n (?B x ?v)" for x
    using det_rec_row_linear [of "Suc j" n "A[j := x]" ?u ?v 1 1] assms(1) len lu lv
    by simp
  have uv: "det_rec n (?B ?u ?v) = det_rec n A"
    by simp
  have "det_rec n (?B ?w ?w)
      = det_rec n (?B ?u ?u) + det_rec n (?B ?u ?v) + (det_rec n (?B ?v ?u) + det_rec n (?B ?v ?v))"
    by (simp only: first second)
  then have "0 = 0 + det_rec n A + (det_rec n (?B ?v ?u) + 0)"
    by (simp only: adj uv)
  then show ?thesis
    by simp
qed

lemma det_rec_row_equal_first:
  assumes "0 < i" and "i < n" and "square n A" and "A ! i = A ! 0"
  shows "det_rec n A = 0"
  using assms
proof (induction i arbitrary: A)
  case 0
  then show ?case by simp
next
  case (Suc i)
  show ?case
  proof (cases "i = 0")
    case True
    with Suc.prems show ?thesis
      by (intro det_rec_adjacent_equal [of 0]) (simp_all add: square_length)
  next
    case False
    let ?A' = "A[i := A ! Suc i, Suc i := A ! i]"
    have sq: "square n ?A'"
      using Suc.prems by (intro square_update) (simp_all add: square_nth)
    have len: "length A = n"
      using Suc.prems(3) by (rule square_length)
    have "?A' ! i = ?A' ! 0"
      using False Suc.prems len by simp
    with False Suc.prems(2) sq have "det_rec n ?A' = 0"
      by (intro Suc.IH) simp_all
    moreover have "det_rec n ?A' = - det_rec n A"
      using Suc.prems by (intro det_rec_swap_adjacent) simp_all
    ultimately show ?thesis by simp
  qed
qed

lemma det_rec_add_multiple_of_first:
  assumes "0 < i" and "i < n" and "square n A"
  shows "det_rec n (A[i := map2 (\<lambda>x y. x + c * y) (A ! i) (A ! 0)]) = det_rec n A"
proof -
  have len: "length A = n"
    using assms(3) by (rule square_length)
  have "det_rec n (A[i := A ! 0]) = 0"
    using assms len
    by (intro det_rec_row_equal_first [of i]) (simp_all add: square_update square_nth)
  moreover have "det_rec n (A[i := map2 (\<lambda>x y. 1 * x + c * y) (A ! i) (A ! 0)])
      = 1 * det_rec n (A[i := A ! i]) + c * det_rec n (A[i := A ! 0])"
    using assms len by (intro det_rec_row_linear) (simp_all add: square_nth)
  ultimately show ?thesis
    by simp
qed

lemma det_rec_reduce_rows:
  assumes "length cs = length rs" and "square n (r0 # ps @ rs @ ss)"
  shows "det_rec n (r0 # ps @ map2 (\<lambda>c r. map2 (\<lambda>x y. x + c * y) r r0) cs rs @ ss)
      = det_rec n (r0 # ps @ rs @ ss)"
  using assms
proof (induction cs rs arbitrary: ps rule: list_induct2)
  case Nil
  then show ?case by simp
next
  case (Cons c cs r rs)
  let ?r' = "map2 (\<lambda>x y. x + c * y) r r0"
  let ?A = "r0 # ps @ r # rs @ ss"
  let ?i = "Suc (length ps)"
  have sq: "square n ?A"
    using Cons.prems by simp
  have i: "?i < n"
    using sq by (simp add: square_def)
  have upd: "?A[?i := map2 (\<lambda>x y. x + c * y) (?A ! ?i) (?A ! 0)] = r0 # ps @ ?r' # rs @ ss"
    by (simp add: list_update_append nth_append)
  have lr: "length r = n" "length r0 = n"
    using sq by (simp_all add: square_def)
  then have "square n (r0 # (ps @ [?r']) @ rs @ ss)"
    using sq by (simp add: square_def)
  then have "det_rec n (r0 # (ps @ [?r']) @ map2 (\<lambda>c r. map2 (\<lambda>x y. x + c * y) r r0) cs rs @ ss)
      = det_rec n (r0 # (ps @ [?r']) @ rs @ ss)"
    by (rule Cons.IH)
  also have "\<dots> = det_rec n (?A[?i := map2 (\<lambda>x y. x + c * y) (?A ! ?i) (?A ! 0)])"
    by (simp only: upd) simp
  also have "\<dots> = det_rec n ?A"
    using i sq by (intro det_rec_add_multiple_of_first) simp_all
  finally show ?case
    by simp
qed

lemma det_rec_first_column:
  assumes "list_all (\<lambda>r. hd r = 0) rs" and "length rs = n"
  shows "det_rec (Suc n) (r0 # rs) = hd r0 * det_rec n (map tl rs)"
proof -
  let ?T = "\<lambda>k. (- 1) ^ k * hd ((r0 # rs) ! k) * det_rec n (map tl (drop_row k (r0 # rs)))"
  have rest: "?T k = 0" if "k \<in> {..<Suc n} - {0}" for k
  proof -
    from that obtain k' where "k = Suc k'" "k' < n"
      by (cases k) auto
    with assms have "hd ((r0 # rs) ! k) = 0"
      by (simp add: list_all_length)
    then show ?thesis by simp
  qed
  have "det_rec (Suc n) (r0 # rs) = (\<Sum>k<Suc n. ?T k)"
    by (rule det_rec_Suc_sum)
  also have "\<dots> = ?T 0 + (\<Sum>k\<in>{..<Suc n} - {0}. ?T k)"
    by (intro sum.remove) simp_all
  also have "(\<Sum>k\<in>{..<Suc n} - {0}. ?T k) = 0"
    using rest by (rule sum.neutral [OF ballI])
  finally show ?thesis
    by (simp add: drop_row_def)
qed

lemma lower_triangular_iff:
  "lower_triangular A \<longleftrightarrow> (\<forall>i j. i < j \<and> j < length A \<longrightarrow> A ! i ! j = 0)"
  unfolding lower_triangular_def list_all_iff by auto

lemma square_Cons:
  "square (Suc n) (r # rs) \<longleftrightarrow> length r = Suc n \<and> length rs = n \<and> list_all (\<lambda>r. length r = Suc n) rs"
  by (auto simp: square_def)

lemma square_map_tl:
  assumes "square (Suc n) (r # rs)"
  shows "square n (map tl rs)"
  using assms by (auto simp: square_def list_all_iff)

lemma lower_triangular_first_row:
  assumes "square (Suc n) (r # rs)" and "lower_triangular (r # rs)"
  shows "r = hd r # replicate n 0"
proof (rule nth_equalityI)
  show "length r = length (hd r # replicate n 0)"
    using assms(1) by (simp add: square_Cons)
next
  fix j assume j: "j < length r"
  have len: "length r = Suc n"
    using assms(1) by (simp add: square_Cons)
  show "r ! j = (hd r # replicate n 0) ! j"
  proof (cases j)
    case 0
    with len show ?thesis by (cases r) simp_all
  next
    case (Suc j')
    with j len assms have "(r # rs) ! 0 ! j = 0"
      by (intro lower_triangular_iff [THEN iffD1, rule_format]) (simp_all add: square_Cons)
    with Suc j len show ?thesis by simp
  qed
qed

lemma lower_triangular_map_tl:
  assumes "square (Suc n) (r # rs)" and "lower_triangular (r # rs)"
  shows "lower_triangular (map tl rs)"
  unfolding lower_triangular_iff
proof (intro allI impI)
  fix i j assume ij: "i < j \<and> j < length (map tl rs)"
  then have i: "i < length rs" and j: "j < length rs"
    by simp_all
  have "length (rs ! i) = Suc n" and n: "length rs = n"
    using assms(1) i by (auto simp: square_Cons list_all_length)
  then have "map tl rs ! i ! j = (r # rs) ! Suc i ! Suc j"
    using i j by (simp add: nth_tl)
  also have "\<dots> = 0"
    using assms(2) ij by (intro lower_triangular_iff [THEN iffD1, rule_format]) auto
  finally show "map tl rs ! i ! j = 0" .
qed

lemma dot_Cons: "dot (x # u) (y # v) = x * y + dot u v"
  by (simp add: dot_def)

lemma dot_commute: "dot u v = dot v u"
  unfolding dot_def by (induction u arbitrary: v) (auto simp: mult.commute split: list.splits intro: list.exhaust, (case_tac v; simp add: mult.commute)+)

lemma dot_zeros: "dot (replicate n 0) v = 0"
proof (induction n arbitrary: v)
  case 0
  then show ?case by (simp add: dot_def)
next
  case (Suc n)
  then show ?case by (cases v) (simp_all add: dot_def)
qed

lemma map2_same: "map2 f (map g xs) (map h xs) = map (\<lambda>x. f (g x) (h x)) xs"
  by (induction xs) simp_all

lemma diagonal_offset:
  "map (\<lambda>(i, row). row ! i) (filter (\<lambda>(i, row). i < length row) (enumerate (Suc k) rs))
     = map (\<lambda>(i, row). row ! i) (filter (\<lambda>(i, row). i < length row) (enumerate k (map tl rs)))"
  by (induction rs arbitrary: k) (auto simp: nth_tl)

lemma diagonal_Cons:
  "diagonal (r # rs) = (if r = [] then [] else [hd r]) @ diagonal (map tl rs)"
  using diagonal_offset [of 0 rs] by (cases r) (simp_all add: diagonal_def)

lemma gram_lower_triangular:
  assumes "list_all (\<lambda>r. r \<noteq> []) rs"
  shows "matmul_mT ((a # replicate n 0) # rs) ((a # replicate n 0) # rs)
      = map2 (\<lambda>x y. a * x + 0 * y) (a # map hd rs) (a # map hd rs)
        # map2 (\<lambda>c r. map2 (\<lambda>x y. x + c * y) r (a # map hd rs)) (map hd rs)
            (map (\<lambda>g. 0 # g) (matmul_mT (map tl rs) (map tl rs)))"
proof -
  have row: "dot (a # replicate n 0) r = a * hd r" if "r \<noteq> []" for r
    using that by (cases r) (simp_all add: dot_Cons dot_zeros)
  have first: "map (dot (a # replicate n 0)) rs = map (\<lambda>r. a * hd r) rs"
    using assms row by (simp add: list_all_iff)
  have col: "dot r (a # replicate n 0) = hd r * a" if "r \<noteq> []" for r
    using row [OF that] by (simp add: dot_commute [of r] mult.commute)
  have inner: "dot r r' = dot (tl r) (tl r') + hd r * hd r'" if "r \<noteq> []" "r' \<noteq> []" for r r'
    using that by (cases r; cases r') (simp_all add: dot_Cons)
  have rows: "map (\<lambda>r. map (dot r) ((a # replicate n 0) # rs)) rs
      = map (\<lambda>r. map2 (\<lambda>x y. x + hd r * y) (0 # map (dot (tl r)) (map tl rs)) (a # map hd rs)) rs"
  proof (rule map_cong [OF refl])
    fix r assume "r \<in> set rs"
    with assms have r: "r \<noteq> []"
      by (simp add: list_all_iff)
    have "map (dot r) rs = map2 (\<lambda>x y. x + hd r * y) (map (dot (tl r)) (map tl rs)) (map hd rs)"
    proof -
      have "map (dot r) rs = map (\<lambda>r'. dot (tl r) (tl r') + hd r * hd r') rs"
        using assms r inner by (simp add: list_all_iff)
      also have "\<dots> = map2 (\<lambda>x y. x + hd r * y) (map (\<lambda>r'. dot (tl r) (tl r')) rs) (map hd rs)"
        by (simp only: map2_same)
      finally show ?thesis by (simp add: o_def)
    qed
    then show "map (dot r) ((a # replicate n 0) # rs)
        = map2 (\<lambda>x y. x + hd r * y) (0 # map (dot (tl r)) (map tl rs)) (a # map hd rs)"
      using col [OF r] by simp
  qed
  have tail: "map2 (\<lambda>c r. map2 (\<lambda>x y. x + c * y) r (a # map hd rs)) (map hd rs)
          (map (\<lambda>g. 0 # g) (matmul_mT (map tl rs) (map tl rs)))
      = map (\<lambda>r. map2 (\<lambda>x y. x + hd r * y) (0 # map (dot (tl r)) (map tl rs)) (a # map hd rs)) rs"
    by (simp add: matmul_mT_def o_def map2_same)
  have "map2 (\<lambda>x y. a * x + 0 * y) (map hd rs) (map hd rs) = map (\<lambda>r. a * hd r) rs"
    by (simp only: map2_same) simp
  then have head: "map (dot (a # replicate n 0)) ((a # replicate n 0) # rs)
      = map2 (\<lambda>x y. a * x + 0 * y) (a # map hd rs) (a # map hd rs)"
    using first by (simp add: dot_Cons dot_zeros)
  have "matmul_mT ((a # replicate n 0) # rs) ((a # replicate n 0) # rs)
      = map (dot (a # replicate n 0)) ((a # replicate n 0) # rs)
        # map (\<lambda>r. map (dot r) ((a # replicate n 0) # rs)) rs"
    by (simp add: matmul_mT_def)
  then show ?thesis
    by (simp only: head rows tail)
qed

lemma length_matmul_mT: "length (matmul_mT A B) = length A"
  by (simp add: matmul_mT_def)

lemma square_matmul_mT: "length A = n \<Longrightarrow> square n (matmul_mT A A)"
  by (simp add: square_def matmul_mT_def list_all_iff)

lemma det_rec_gram_lower_triangular:
  assumes "square n L" and "lower_triangular L"
  shows "det_rec n (matmul_mT L L) = (prod_list (diagonal L)) ^ 2"
  using assms
proof (induction n arbitrary: L)
  case 0
  then show ?case
    by (simp add: square_def matmul_mT_def diagonal_def)
next
  case (Suc n)
  from Suc.prems(1) obtain r rs where L: "L = r # rs"
    by (cases L) (simp_all add: square_def)
  define a where "a = hd r"
  define c where "c = a # map hd rs"
  define B where "B = map tl rs"
  define G where "G = matmul_mT B B"
  define R where "R = map2 (\<lambda>k g. map2 (\<lambda>x y. x + k * y) g c) (map hd rs) (map (\<lambda>g. 0 # g) G)"
  have sq: "square (Suc n) (r # rs)" and lt: "lower_triangular (r # rs)"
    using Suc.prems L by simp_all
  have r: "r = a # replicate n 0"
    unfolding a_def using sq lt by (rule lower_triangular_first_row)
  have len_rs: "length rs = n" and rows: "list_all (\<lambda>r. length r = Suc n) rs"
    using sq by (simp_all add: square_Cons)
  have ne: "list_all (\<lambda>r. r \<noteq> []) rs"
    using rows by (auto simp: list_all_iff)
  have sqB: "square n B" and ltB: "lower_triangular B"
    unfolding B_def using sq lt by (simp_all add: square_map_tl lower_triangular_map_tl)
  have lenB: "length B = n"
    using sqB by (rule square_length)
  have sqG: "square n G"
    unfolding G_def using lenB by (rule square_matmul_mT)
  have lenG: "length G = n"
    using sqG by (rule square_length)
  have lenR: "length R = n"
    by (simp add: R_def len_rs lenG)
  have lenc: "length c = Suc n"
    by (simp add: c_def len_rs)
  have gram: "matmul_mT L L = map2 (\<lambda>x y. a * x + 0 * y) c c # R"
    unfolding L R_def c_def G_def B_def
    by (subst r, subst r) (rule gram_lower_triangular [OF ne])
  have "det_rec (Suc n) ((c # R)[0 := map2 (\<lambda>x y. a * x + 0 * y) c c])
      = a * det_rec (Suc n) ((c # R)[0 := c]) + 0 * det_rec (Suc n) ((c # R)[0 := c])"
    using lenR lenc by (intro det_rec_row_linear) simp_all
  then have step1: "det_rec (Suc n) (matmul_mT L L) = a * det_rec (Suc n) (c # R)"
    by (simp add: gram)
  have sqZ: "square (Suc n) (c # [] @ map (\<lambda>g. 0 # g) G @ [])"
    using sqG lenc by (simp add: square_def list_all_iff)
  have "det_rec (Suc n) (c # [] @ map2 (\<lambda>k g. map2 (\<lambda>x y. x + k * y) g c) (map hd rs) (map (\<lambda>g. 0 # g) G) @ [])
      = det_rec (Suc n) (c # [] @ map (\<lambda>g. 0 # g) G @ [])"
    using sqZ by (intro det_rec_reduce_rows) (simp_all add: len_rs lenG)
  then have step2: "det_rec (Suc n) (c # R) = det_rec (Suc n) (c # map (\<lambda>g. 0 # g) G)"
    by (simp add: R_def)
  have "det_rec (Suc n) (c # map (\<lambda>g. 0 # g) G) = hd c * det_rec n (map tl (map (\<lambda>g. 0 # g) G))"
    by (intro det_rec_first_column) (simp_all add: list_all_iff lenG)
  then have step3: "det_rec (Suc n) (c # map (\<lambda>g. 0 # g) G) = a * det_rec n G"
    by (simp add: c_def o_def)
  have ih: "det_rec n G = (prod_list (diagonal B)) ^ 2"
    unfolding G_def using sqB ltB by (rule Suc.IH)
  have dg: "diagonal L = a # diagonal B"
    unfolding L B_def by (subst r) (simp add: diagonal_Cons)
  show ?case
    by (simp add: step1 step2 step3 ih dg power2_eq_square del: det_rec.simps)
qed

lemma prod_list_lower_bound:
  assumes "0 \<le> (e::real)" and "list_all (\<lambda>x. e \<le> x) xs"
  shows "e ^ length xs \<le> prod_list xs \<and> 0 \<le> prod_list xs"
  using assms
proof (induction xs)
  case Nil
  then show ?case by simp
next
  case (Cons a xs)
  then have ih: "e ^ length xs \<le> prod_list xs" "0 \<le> prod_list xs" and a: "e \<le> a"
    by simp_all
  have "e * e ^ length xs \<le> a * prod_list xs"
    using a ih Cons.prems(1) by (intro mult_mono) simp_all
  moreover have "0 \<le> a * prod_list xs"
    using a ih Cons.prems(1) by simp
  ultimately show ?case by simp
qed

lemma diagonal_square: "square n A \<Longrightarrow> length (diagonal A) = n"
proof (induction n arbitrary: A)
  case 0
  then show ?case by (simp add: square_def diagonal_def)
next
  case (Suc n)
  then obtain r rs where A: "A = r # rs"
    by (cases A) (simp_all add: square_def)
  with Suc.prems have "square n (map tl rs)" and "r \<noteq> []"
    by (auto simp: square_map_tl square_Cons)
  with Suc.IH [of "map tl rs"] show ?case
    by (simp add: A diagonal_Cons)
qed

lemma det_gram_lower_bound:
  assumes "square n L" and "lower_triangular L" and "0 \<le> e"
    and "list_all (\<lambda>x. e \<le> x) (diagonal L)"
  shows "(e ^ n) ^ 2 \<le> det (matmul_mT L L)"
proof -
  have "e ^ n \<le> prod_list (diagonal L)"
    using prod_list_lower_bound [OF assms(3,4)] diagonal_square [OF assms(1)] by simp
  moreover have "0 \<le> e ^ n"
    using assms(3) by simp
  ultimately have "(e ^ n) ^ 2 \<le> (prod_list (diagonal L)) ^ 2"
    by (intro power_mono)
  then show ?thesis
    using det_rec_gram_lower_triangular [OF assms(1,2)] assms(1)
    by (simp add: det_def length_matmul_mT square_length)
qed

subsection \<open>Symmetric and positive semidefinite matrices\<close>

lemma dot_sum:
  assumes "length u = m" and "length w = m"
  shows "dot u w = (\<Sum>k<m. u ! k * w ! k)"
proof -
  have "dot u w = (\<Sum>k = 0..<length (map2 (*) u w). map2 (*) u w ! k)"
    unfolding dot_def by (rule sum_list_sum_nth)
  also have "\<dots> = (\<Sum>k = 0..<m. u ! k * w ! k)"
    using assms by (intro sum.cong) simp_all
  finally show ?thesis
    by (simp add: atLeast0LessThan)
qed

lemma matmul_mT_nth:
  "i < length A \<Longrightarrow> j < length B \<Longrightarrow> matmul_mT A B ! i ! j = dot (A ! i) (B ! j)"
  by (simp add: matmul_mT_def)

lemma symmetric_gram: "symmetric (matmul_mT L L)"
  unfolding symmetric_def list_all_iff
  by (auto simp: length_matmul_mT matmul_mT_nth dot_commute)

lemma quadratic_form_gram:
  assumes "length L = n" and "list_all (\<lambda>r. length r = m) L" and "length v = n"
  shows "quadratic_form (matmul_mT L L) v = (\<Sum>k<m. (\<Sum>i<n. v ! i * L ! i ! k) ^ 2)"
proof -
  have rows: "length (L ! i) = m" if "i < n" for i
    using that assms(1,2) by (simp add: list_all_length)
  have entry: "matmul_mT L L ! i ! j = (\<Sum>k<m. L ! i ! k * L ! j ! k)" if "i < n" "j < n" for i j
    using that assms(1) rows by (simp add: matmul_mT_nth dot_sum [of _ m])
  have inner: "dot (matmul_mT L L ! i) v = (\<Sum>j<n. (\<Sum>k<m. L ! i ! k * L ! j ! k) * v ! j)"
    if "i < n" for i
  proof -
    have "length (matmul_mT L L ! i) = n"
      using that assms(1) by (simp add: matmul_mT_def)
    then have "dot (matmul_mT L L ! i) v = (\<Sum>j<n. matmul_mT L L ! i ! j * v ! j)"
      using assms(3) by (rule dot_sum)
    also have "\<dots> = (\<Sum>j<n. (\<Sum>k<m. L ! i ! k * L ! j ! k) * v ! j)"
      using that by (intro sum.cong) (simp_all add: entry)
    finally show ?thesis .
  qed
  have "quadratic_form (matmul_mT L L) v
      = (\<Sum>i<n. v ! i * map (\<lambda>r. dot r v) (matmul_mT L L) ! i)"
    unfolding quadratic_form_def using assms(1,3)
    by (intro dot_sum) (simp_all add: length_matmul_mT)
  also have "\<dots> = (\<Sum>i<n. v ! i * (\<Sum>j<n. (\<Sum>k<m. L ! i ! k * L ! j ! k) * v ! j))"
    using assms(1) by (intro sum.cong) (simp_all add: length_matmul_mT inner)
  also have "\<dots> = (\<Sum>i<n. \<Sum>j<n. \<Sum>k<m. (v ! i * L ! i ! k) * (v ! j * L ! j ! k))"
    by (simp add: sum_distrib_left sum_distrib_right mult_ac)
  also have "\<dots> = (\<Sum>i<n. \<Sum>k<m. \<Sum>j<n. (v ! i * L ! i ! k) * (v ! j * L ! j ! k))"
    by (intro sum.cong refl sum.swap)
  also have "\<dots> = (\<Sum>k<m. \<Sum>i<n. \<Sum>j<n. (v ! i * L ! i ! k) * (v ! j * L ! j ! k))"
    by (rule sum.swap)
  also have "\<dots> = (\<Sum>k<m. (\<Sum>i<n. v ! i * L ! i ! k) ^ 2)"
    by (simp add: power2_eq_square sum_product)
  finally show ?thesis .
qed

lemma quadratic_form_gram_nonneg:
  assumes "length L = n" and "list_all (\<lambda>r. length r = m) L" and "length v = n"
  shows "0 \<le> quadratic_form (matmul_mT L L) v"
  unfolding quadratic_form_gram [OF assms] by (intro sum_nonneg) simp

lemma diag_nth:
  "i < length d \<Longrightarrow> j < length d \<Longrightarrow> diag d ! i ! j = (if i = j then d ! i else 0)"
  by (simp add: diag_def)

lemma length_diag: "length (diag d) = length d"
  by (simp add: diag_def)

lemma square_diag: "square (length d) (diag d)"
  by (simp add: square_def diag_def list_all_iff)

lemma symmetric_diag: "symmetric (diag d)"
  unfolding symmetric_def list_all_iff by (auto simp: length_diag diag_nth)

lemma quadratic_form_diag:
  assumes "length v = length d"
  shows "quadratic_form (diag d) v = (\<Sum>i<length d. d ! i * (v ! i) ^ 2)"
proof -
  let ?n = "length d"
  have inner: "dot (diag d ! i) v = d ! i * v ! i" if "i < ?n" for i
  proof -
    have "length (diag d ! i) = ?n"
      using that by (simp add: diag_def)
    then have "dot (diag d ! i) v = (\<Sum>j<?n. diag d ! i ! j * v ! j)"
      using assms by (rule dot_sum)
    also have "\<dots> = (\<Sum>j<?n. if i = j then d ! i * v ! j else 0)"
      using that by (intro sum.cong) (simp_all add: diag_nth)
    also have "\<dots> = d ! i * v ! i"
      using that by (simp add: sum.delta)
    finally show ?thesis .
  qed
  have "quadratic_form (diag d) v = (\<Sum>i<?n. v ! i * map (\<lambda>r. dot r v) (diag d) ! i)"
    unfolding quadratic_form_def using assms by (intro dot_sum) (simp_all add: length_diag)
  also have "\<dots> = (\<Sum>i<?n. d ! i * (v ! i) ^ 2)"
    by (intro sum.cong) (simp_all add: length_diag inner power2_eq_square)
  finally show ?thesis .
qed

lemma quadratic_form_diag_nonneg:
  assumes "length v = length d" and "list_all (\<lambda>x. 0 \<le> x) d"
  shows "0 \<le> quadratic_form (diag d) v"
  unfolding quadratic_form_diag [OF assms(1)]
  using assms(2) by (intro sum_nonneg) (simp add: list_all_length)

lemma diag_Cons: "diag (x # d) = (x # replicate (length d) 0) # map (\<lambda>r. 0 # r) (diag d)"
proof -
  have up: "[0..<Suc (length d)] = 0 # map Suc [0..<length d]"
    by (simp add: upt_conv_Cons map_Suc_upt del: upt_Suc)
  have a: "map (\<lambda>j. if 0 = j then x else 0) (map Suc [0..<length d]) = replicate (length d) 0"
    by (simp add: o_def map_replicate_trivial)
  show ?thesis
    unfolding diag_def by (simp add: up a o_def map_replicate_trivial del: upt_Suc)
qed

lemma det_rec_diag: "det_rec (length d) (diag d) = prod_list d"
proof (induction d)
  case Nil
  then show ?case by simp
next
  case (Cons x d)
  have "det_rec (Suc (length d)) ((x # replicate (length d) 0) # map (\<lambda>r. 0 # r) (diag d))
      = hd (x # replicate (length d) 0) * det_rec (length d) (map tl (map (\<lambda>r. 0 # r) (diag d)))"
    by (intro det_rec_first_column) (simp_all add: list_all_iff length_diag)
  then show ?case
    using Cons.IH by (simp add: diag_Cons o_def del: det_rec.simps)
qed

lemma det_diag_lower_bound:
  assumes "0 \<le> e" and "list_all (\<lambda>x. e \<le> x) d"
  shows "e ^ length d \<le> det (diag d)"
  using prod_list_lower_bound [OF assms] det_rec_diag [of d]
  by (simp add: det_def length_diag)

subsection \<open>The covariance matrices after constraining the parameters\<close>

lemma diagonal_map_diagonal_offset:
  "map (\<lambda>(i, row). row ! i) (filter (\<lambda>(i, row). i < length row) (enumerate k (map_diagonal f k A)))
     = map f (map (\<lambda>(i, row). row ! i) (filter (\<lambda>(i, row). i < length row) (enumerate k A)))"
  by (induction A arbitrary: k) auto

lemma diagonal_map_diagonal: "diagonal (map_diagonal f 0 A) = map f (diagonal A)"
  unfolding diagonal_def by (rule diagonal_map_diagonal_offset)

lemma constrained_diagonal:
  "list_all (\<lambda>x. e \<le> x) (diagonal (map_diagonal (\<lambda>x. max x e) 0 (map_diagonal abs 0 A)))"
  by (simp add: diagonal_map_diagonal list_all_iff)

lemma square_map_diagonal: "square n A \<Longrightarrow> square n (map_diagonal f 0 A)"
  unfolding square_def list_all_length
  by (simp add: length_map_diagonal length_row_map_diagonal)

lemma lower_triangular_map_diagonal:
  "lower_triangular A \<Longrightarrow> lower_triangular (map_diagonal f 0 A)"
  unfolding lower_triangular_iff
  by (simp add: length_map_diagonal map_diagonal_off_diagonal)

lemma constrained_gram_determinant:
  assumes "0 < e" and "square n A" and "lower_triangular A"
  shows "(e ^ n) ^ 2
      \<le> det (matmul_mT (map_diagonal (\<lambda>x. max x e) 0 (map_diagonal abs 0 A))
                (map_diagonal (\<lambda>x. max x e) 0 (map_diagonal abs 0 A)))"
  using assms
  by (intro det_gram_lower_bound square_map_diagonal lower_triangular_map_diagonal
      constrained_diagonal) simp_all

text \<open>
  What constraining the parameters guarantees, in exact arithmetic, for every
  \<open>epsilon > 0\<close> and every state whose scale matrices are \<open>num_dims \<times> num_dims\<close>:
  every diagonal entry of every scale matrix of the full model and every entry of
  \<open>sigmas_diag\<close> of the diagonal model is at least \<open>epsilon\<close>; every matrix that
  \<^verbatim>\<open>get_covariance_matrix\<close> returns is symmetric and positive semidefinite; the matrix
  returned for the diagonal model has a determinant of at least \<open>epsilon ^ num_dims\<close>.
  The determinant of the matrix returned for the full model is at least
  \<open>(epsilon ^ num_dims)\<^sup>2\<close> only for a component whose scale matrix is lower
  triangular, as its name says it is; nothing in the program makes it so.
\<close>

lemma constrained_covariance_valid:
  assumes "0 < epsilon" and "list_all (square (num_dims m)) (scale_tril m)"
  shows "list_all (\<lambda>L. list_all (\<lambda>x. epsilon \<le> x) (diagonal L))
           (scale_tril (GmmFull_constrain_parameters m epsilon))
       \<and> list_all (list_all (\<lambda>x. epsilon \<le> x))
           (sigmas_diag (GmmDiagonal_constrain_parameters d epsilon))
       \<and> list_all (\<lambda>S. symmetric S \<and> (\<forall>v. length v = length S \<longrightarrow> 0 \<le> quadratic_form S v))
           (GmmFull_get_covariance_matrix (GmmFull_constrain_parameters m epsilon))
       \<and> list_all2 (\<lambda>L S. lower_triangular L \<longrightarrow> (epsilon ^ num_dims m) ^ 2 \<le> det S)
           (scale_tril m)
           (GmmFull_get_covariance_matrix (GmmFull_constrain_parameters m epsilon))
       \<and> 0 < (epsilon ^ num_dims m) ^ 2
       \<and> list_all (\<lambda>S. symmetric S \<and> (\<forall>v. length v = length S \<longrightarrow> 0 \<le> quadratic_form S v)
                       \<and> epsilon ^ length S \<le> det S \<and> 0 < epsilon ^ length S)
           (GmmDiagonal_get_covariance_matrix (GmmDiagonal_constrain_parameters d epsilon))"
proof -
  let ?c = "\<lambda>A. map_diagonal (\<lambda>x. max x epsilon) 0 (map_diagonal abs 0 A)"
  have full: "scale_tril (GmmFull_constrain_parameters m epsilon) = map ?c (scale_tril m)"
    by (simp add: GmmFull_constrain_parameters_def)
  have cov: "GmmFull_get_covariance_matrix (GmmFull_constrain_parameters m epsilon)
      = map (\<lambda>A. matmul_mT (?c A) (?c A)) (scale_tril m)"
    by (simp add: GmmFull_get_covariance_matrix_def full o_def)
  have a: "list_all (\<lambda>L. list_all (\<lambda>x. epsilon \<le> x) (diagonal L))
      (scale_tril (GmmFull_constrain_parameters m epsilon))"
    unfolding full list.pred_map o_def
    by (simp only: constrained_diagonal) (simp add: list_all_iff)
  have b: "list_all (list_all (\<lambda>x. epsilon \<le> x))
      (sigmas_diag (GmmDiagonal_constrain_parameters d epsilon))"
    by (simp add: GmmDiagonal_constrain_parameters_def list_all_iff)
  have sq: "square (num_dims m) (?c A)" if "A \<in> set (scale_tril m)" for A
    using that assms(2) by (auto simp: list_all_iff intro: square_map_diagonal)
  have psd: "0 \<le> quadratic_form (matmul_mT (?c A) (?c A)) v"
    if "A \<in> set (scale_tril m)" "length v = length (matmul_mT (?c A) (?c A))" for A v
  proof -
    have "length (?c A) = length v" and "list_all (\<lambda>r. length r = num_dims m) (?c A)"
      using sq [OF that(1)] that(2) by (simp_all add: square_def length_matmul_mT)
    then show ?thesis
      by (intro quadratic_form_gram_nonneg [of _ "length v" "num_dims m"]) simp_all
  qed
  have c: "list_all (\<lambda>S. symmetric S \<and> (\<forall>v. length v = length S \<longrightarrow> 0 \<le> quadratic_form S v))
      (GmmFull_get_covariance_matrix (GmmFull_constrain_parameters m epsilon))"
    unfolding cov using psd by (simp add: list_all_iff symmetric_gram)
  have dt: "(epsilon ^ num_dims m) ^ 2 \<le> det (matmul_mT (?c A) (?c A))"
    if "A \<in> set (scale_tril m)" "lower_triangular A" for A
    using assms that by (intro constrained_gram_determinant) (auto simp: list_all_iff)
  have d: "list_all2 (\<lambda>L S. lower_triangular L \<longrightarrow> (epsilon ^ num_dims m) ^ 2 \<le> det S)
      (scale_tril m) (GmmFull_get_covariance_matrix (GmmFull_constrain_parameters m epsilon))"
    unfolding cov using dt by (simp add: list_all2_map2 list_all2_same)
  have e: "0 < (epsilon ^ num_dims m) ^ 2"
    using assms(1) by simp
  have dcov: "GmmDiagonal_get_covariance_matrix (GmmDiagonal_constrain_parameters d epsilon)
      = map (\<lambda>r. diag (map (\<lambda>x. max x epsilon) (map abs r))) (sigmas_diag d)"
    by (simp add: GmmDiagonal_get_covariance_matrix_def GmmDiagonal_constrain_parameters_def
        diag_embed_def o_def)
  have f: "list_all (\<lambda>S. symmetric S \<and> (\<forall>v. length v = length S \<longrightarrow> 0 \<le> quadratic_form S v)
                       \<and> epsilon ^ length S \<le> det S \<and> 0 < epsilon ^ length S)
      (GmmDiagonal_get_covariance_matrix (GmmDiagonal_constrain_parameters d epsilon))"
    unfolding dcov list_all_iff
  proof (intro ballI conjI allI impI)
    fix S assume "S \<in> set (map (\<lambda>r. diag (map (\<lambda>x. max x epsilon) (map abs r))) (sigmas_diag d))"
    then obtain r where S: "S = diag (map (\<lambda>x. max x epsilon) (map abs r))"
      by auto
    let ?r = "map (\<lambda>x. max x epsilon) (map abs r)"
    have ge: "list_all (\<lambda>x. epsilon \<le> x) ?r"
      by (simp add: list_all_iff)
    have ge0: "list_all (\<lambda>x. 0 \<le> x) ?r"
      by (simp add: list_all_iff le_max_iff_disj)
    show "symmetric S"
      unfolding S by (rule symmetric_diag)
    show "epsilon ^ length S \<le> det S"
      unfolding S using assms(1) ge det_diag_lower_bound [of epsilon ?r]
      by (simp add: length_diag)
    show "0 < epsilon ^ length S"
      using assms(1) by simp
    fix v :: vec
    assume "length v = length S"
    then show "0 \<le> quadratic_form S v"
      unfolding S using ge0 by (intro quadratic_form_diag_nonneg) (simp_all add: length_diag)
  qed
  show ?thesis
    using a b c d e f by blast
qed

lemma constrained_covariance_valid_example:
  "(0::real) < 1 / 2
   \<and> list_all (square (num_dims example_full_lower)) (scale_tril example_full_lower)
   \<and> lower_triangular (scale_tril example_full_lower ! 0)
   \<and> GmmFull_get_covariance_matrix (GmmFull_constrain_parameters example_full_lower (1 / 2))
       = [[[9, 21], [21, 197 / 4]]]
   \<and> ((1 / 2) ^ 2) ^ 2 \<le> det [[9, 21], [21, 197 / 4 :: real]]
   \<and> 0 \<le> quadratic_form [[9, 21], [21, 197 / 4]] [1, - 1]
   \<and> list_all (list_all (\<lambda>x. 1 / 2 \<le> x))
        (sigmas_diag (GmmDiagonal_constrain_parameters example_diagonal (1 / 2)))"
proof -
  have e: "(0::real) < 1 / 2"
    by simp
  have sq: "list_all (square (num_dims example_full_lower)) (scale_tril example_full_lower)"
    by (simp add: example_full_lower_def square_def)
  have lt: "lower_triangular (scale_tril example_full_lower ! 0)"
    by (simp add: example_full_lower_def lower_triangular_def)
  have st: "scale_tril example_full_lower = [[[- 3, 0], [7, 0]]]"
    and nd: "num_dims example_full_lower = 2"
    by (simp_all add: example_full_lower_def)
  have cov: "GmmFull_get_covariance_matrix (GmmFull_constrain_parameters example_full_lower (1 / 2))
      = [[[9, 21], [21, 197 / 4]]]"
    by (simp add: GmmFull_get_covariance_matrix_def GmmFull_constrain_parameters_def st
        matmul_mT_def dot_def)
  note v = constrained_covariance_valid [OF e sq, of example_diagonal]
  from v have "list_all2 (\<lambda>L S. lower_triangular L \<longrightarrow> ((1 / 2) ^ num_dims example_full_lower) ^ 2 \<le> det S)
      (scale_tril example_full_lower)
      (GmmFull_get_covariance_matrix (GmmFull_constrain_parameters example_full_lower (1 / 2)))"
    by blast
  with lt have d: "((1 / 2) ^ 2) ^ 2 \<le> det [[9, 21], [21, 197 / 4 :: real]]"
    unfolding cov st nd by simp
  from v have "list_all (\<lambda>S. symmetric S \<and> (\<forall>v. length v = length S \<longrightarrow> 0 \<le> quadratic_form S v))
      (GmmFull_get_covariance_matrix (GmmFull_constrain_parameters example_full_lower (1 / 2)))"
    by blast
  then have "\<forall>v. length v = length [[9, 21], [21, 197 / 4 :: real]]
      \<longrightarrow> 0 \<le> quadratic_form [[9, 21], [21, 197 / 4]] v"
    unfolding cov by simp
  then have q: "0 \<le> quadratic_form [[9, 21], [21, 197 / 4]] [1, - 1]"
    by simp
  from v have s: "list_all (list_all (\<lambda>x. 1 / 2 \<le> x))
      (sigmas_diag (GmmDiagonal_constrain_parameters example_diagonal (1 / 2)))"
    by blast
  show ?thesis
    using e sq lt cov d q s by blast
qed

text \<open>
  Claim C3. After \<^verbatim>\<open>constrain_parameters(epsilon)\<close> with \<open>epsilon > 0\<close>, every diagonal
  entry of every scale matrix is at least \<open>epsilon\<close> and every matrix that
  \<^verbatim>\<open>get_covariance_matrix\<close> returns is symmetric, positive semidefinite and of a
  determinant bounded below by a positive value derived from \<open>epsilon\<close>. The program
  does not keep the bound on the determinant: the scale matrix is meant to be lower
  triangular, but only its diagonal is repaired and the constructor itself stores the full
  matrix \<open>L L\<^sup>T + I\<close> (for a generator that draws 1/2, \<open>[[5/4, 1/4], [1/4, 3/2]]\<close>).
  In the state \<open>example_full_singular\<close> the scale matrix is \<open>[[1, 1], [1, 1]]\<close>;
  constraining with \<open>epsilon = 10\<^sup>-\<^sup>6\<close> leaves it as it is, its diagonal is at least
  \<open>epsilon\<close>, and the covariance matrix returned is \<open>[[2, 2], [2, 2]]\<close>, of
  determinant 0.
\<close>

theorem constrained_covariance_singular:
  "(0::real) < 1 / 10 ^ 6
   \<and> list_all (square (num_dims example_full_singular)) (scale_tril example_full_singular)
   \<and> \<not> lower_triangular (scale_tril example_full_singular ! 0)
   \<and> scale_tril (GmmFull_constrain_parameters example_full_singular (1 / 10 ^ 6)) = [[[1, 1], [1, 1]]]
   \<and> list_all (\<lambda>L. list_all (\<lambda>x. 1 / 10 ^ 6 \<le> x) (diagonal L))
        (scale_tril (GmmFull_constrain_parameters example_full_singular (1 / 10 ^ 6)))
   \<and> GmmFull_get_covariance_matrix (GmmFull_constrain_parameters example_full_singular (1 / 10 ^ 6))
       = [[[2, 2], [2, 2]]]
   \<and> det (GmmFull_get_covariance_matrix
            (GmmFull_constrain_parameters example_full_singular (1 / 10 ^ 6)) ! 0) = 0
   \<and> (\<exists>m. GmmFull_init 1 2 (PyInt 1) 1 None (\<lambda>k. 1 / 2) = Inr m
         \<and> scale_tril m = [[[5 / 4, 1 / 4], [1 / 4, 3 / 2]]]
         \<and> \<not> lower_triangular (scale_tril m ! 0))"
proof -
  have st: "scale_tril (GmmFull_constrain_parameters example_full_singular (1 / 10 ^ 6))
      = [[[1, 1], [1, 1]]]"
    by (simp add: example_full_singular_def GmmFull_constrain_parameters_def)
  have cov: "GmmFull_get_covariance_matrix (GmmFull_constrain_parameters example_full_singular (1 / 10 ^ 6))
      = [[[2, 2], [2, 2]]]"
    unfolding GmmFull_get_covariance_matrix_def st by (simp add: matmul_mT_def dot_def)
  have dt: "det [[2, 2], [2, 2]] = 0"
    by (simp add: det_def drop_row_def)
  have sq: "list_all (square (num_dims example_full_singular)) (scale_tril example_full_singular)"
    by (simp add: example_full_singular_def square_def)
  have nl: "\<not> lower_triangular (scale_tril example_full_singular ! 0)"
    by (simp add: example_full_singular_def lower_triangular_def)
  have dg: "list_all (\<lambda>L. list_all (\<lambda>x. 1 / 10 ^ 6 \<le> x) (diagonal L))
      (scale_tril (GmmFull_constrain_parameters example_full_singular (1 / 10 ^ 6)))"
    by (simp add: example_full_singular_def GmmFull_constrain_parameters_def diagonal_def
        enumerate_eq_zip numeral_2_eq_2)
  have ctor: "\<exists>m. GmmFull_init 1 2 (PyInt 1) 1 None (\<lambda>k. 1 / 2) = Inr m
      \<and> scale_tril m = [[[5 / 4, 1 / 4], [1 / 4, 3 / 2]]]
      \<and> \<not> lower_triangular (scale_tril m ! 0)"
    by (simp add: GmmFull_init_def MixtureModel_init_def initial_means_def rand_def
        uniform_inplace_def Linear_init_def Let_def tril_def diag_def mat_add_def matmul_mT_def
        dot_def lower_triangular_def enumerate_eq_zip numeral_2_eq_2)
  show ?thesis
    using st cov dt sq nl dg ctor by simp
qed

end
